theory Spec2Isabelle
  imports Complex_Main "HOL-Library.Multiset"
begin

section \<open>The rules engine of the card game (game.py)\<close>

text \<open>
  The engine works on one mutable \<open>GameState\<close>. Every function of game.py that the
  properties below are about is translated here, statement by statement, into a function
  that takes the state and returns the new one.

  \<^item> Python integers are \<open>int\<close>; lists are lists; \<open>Optional[str]\<close> is \<open>string option\<close>.
  \<^item> \<open>AnimalInstance\<close> objects are mutated through references that outlive their place
    in \<open>state.animals\<close> (the hunting loop keeps a list of predator objects while preys are
    removed from the table). The state therefore carries a store \<open>heap\<close> from addresses
    to animal objects, and \<open>animals\<close> is the list of addresses that \<open>state.animals\<close>
    holds. An object that has left the table stays in the store, as it stays alive in
    Python for as long as a local variable refers to it.
  \<^item> Players are only reached through \<open>state.players[i]\<close>; a player object is
    identified with its position in that list. Plants are never mutated and are values.
  \<^item> \<open>state.players[state.active_player_index]\<close> raises \<open>IndexError\<close> out of range;
    the functions that evaluate it return \<open>error + result\<close>.
  \<^item> The log is a list of messages, one constructor for each message text of the source,
    with the values the text interpolates as arguments.
\<close>

subsection \<open>The card catalogue\<close>

text \<open>
  The module \<open>data\<close> (\<open>CARD_INDEX\<close>, \<open>DECK_P1\<close>, \<open>DECK_P2\<close>) is not among the sources.
  The catalogue is a parameter \<open>CARD_INDEX\<close> of every function that reads it: a function
  from card identifiers to entries. An entry is a record of the keys that game.py reads
  (\<open>card["kind"]\<close>, \<open>card["level"]\<close>, ...). The type says that every identifier has an
  entry and every entry has every key: a lookup of the source that would raise
  \<open>KeyError\<close> on a corrupt catalogue has no counterpart here. The numeric keys are
  integers (\<open>weightKg\<close> in whole kilograms).
\<close>

record card =
  kind :: string
  name :: string
  cnPerTurn :: int
  type :: string
  level :: int
  attack :: int
  defense :: int
  instinct :: int
  mobility :: int
  weightKg :: int

type_synonym catalog = "string \<Rightarrow> card"

subsection \<open>The data classes\<close>

type_synonym ref = nat

record PlantInstance =
  instance_id :: int
  card_id :: string
  owner :: int

record AnimalInstance =
  instance_id :: int
  card_id :: string
  owner :: int
  hunger :: int

record BiomeState =
  name :: string
  cn_base :: int
  lmax :: int
  cc :: int
  cn_temp :: int
  cn :: int

record PlayerState =
  name :: string
  deck :: "string list"
  hand :: "string list"
  pending_control :: bool

datatype error = IndexError

text \<open>The messages of \<open>state.add_log\<close>, in the order in which game.py has them.\<close>

datatype msg =
    GameStarted
  | KeepsControlAndWins string
  | TurnStarts string int int
  | DrawsUpTo string nat
  | GameAlreadyOver
  | CardNotInHand
  | ActionsExhausted
  | PlaysPlant string string
  | PlaysAnimal string string int
  | UnknownCardKind
  | NotEnoughCnForHerbivore
  | NoViablePreyForCarnivore
  | OmnivoreNeedsCnOrPrey
  | InvalidAnimalType
  | ControlThreat string
  | NoHungryPredators
  | HuntingPhaseStarts
  | NoHuntingTarget string
  | InvalidTarget string
  | CannotHuntThatPrey string
  | InstinctFavours string
  | EscapesByMobility string
  | CatchesUp string string
  | Eliminates string string
  | Resists string string
  | FeedingPhaseStarts
  | LevelAllFed int int
  | LevelCnInsufficient int int nat
  | Duel string string
  | NoCnForDuel
  | UnfedCarnivoresHunger
  | DiesOfHunger string
  | NoStarvation
  | Conversion int

record GameState =
  players :: "PlayerState list"
  biome :: BiomeState
  heap :: "ref \<Rightarrow> AnimalInstance"
  animals :: "ref list"
  plants :: "PlantInstance list"
  active_player_index :: int
  actions_used :: int
  next_instance_id :: int
  log :: "msg list"
  winner :: "string option"

definition add_log :: "GameState \<Rightarrow> msg \<Rightarrow> GameState" where
  "add_log st message = st\<lparr>log := log st @ [message]\<rparr>"

subsection \<open>Python's values in conditions and list indexing\<close>

text \<open>\<open>if state.winner:\<close> holds for a winner that is neither \<open>None\<close> nor the empty string.\<close>

definition truthy :: "string option \<Rightarrow> bool" where
  "truthy w = (case w of None \<Rightarrow> False | Some s \<Rightarrow> s \<noteq> [])"

text \<open>
  \<open>xs[i]\<close>: the position that the index \<open>i\<close> denotes (a negative index counts from the
  end), or \<open>None\<close> where Python raises \<open>IndexError\<close>.
\<close>

definition py_index :: "'a list \<Rightarrow> int \<Rightarrow> nat option" where
  "py_index xs i =
     (let n = int (length xs); j = (if i < 0 then n + i else i)
      in if 0 \<le> j \<and> j < n then Some (nat j) else None)"

text \<open>
  \<open>int(a / b)\<close> for integers \<open>a\<close> and \<open>b > 0\<close>: the quotient truncated towards zero.
  With it \<open>int(w / 10)\<close> is \<open>trunc_div w 10\<close>, \<open>int(0.20 * s)\<close> is \<open>trunc_div s 5\<close> and
  \<open>int(0.25 * s)\<close> is \<open>trunc_div s 4\<close>; \<open>math.ceil(l / 2)\<close> is \<open>ceil_half l\<close> and
  \<open>math.floor(0.40 * c)\<close> is \<open>(2 * c) div 5\<close>. (The source computes these in binary
  floating point, which gives the same integers for operands below \<open>2 ^ 50\<close> in
  absolute value.)
\<close>

definition trunc_div :: "int \<Rightarrow> int \<Rightarrow> int" where
  "trunc_div a b = (if 0 \<le> a then a div b else - ((- a) div b))"

definition ceil_half :: "int \<Rightarrow> int" where
  "ceil_half l = - ((- l) div 2)"

subsection \<open>Control\<close>

definition check_control :: "catalog \<Rightarrow> GameState \<Rightarrow> int \<Rightarrow> bool" where
  "check_control CARD_INDEX st player_index =
     list_all
       (\<lambda>lv. list_ex
          (\<lambda>animal. level (CARD_INDEX (card_id (heap st animal))) = lv
             \<and> owner (heap st animal) = player_index)
          (animals st))
       [1 .. lmax (biome st)]"

subsection \<open>Start of a turn\<close>

text \<open>
  \<open>while len(player.hand) < target_size and player.deck: player.hand.append(player.deck.pop(0))\<close>
\<close>

fun draw_loop :: "string list \<Rightarrow> string list \<Rightarrow> int \<Rightarrow> string list \<times> string list" where
  "draw_loop hnd [] target_size = (hnd, [])"
| "draw_loop hnd (c # dck) target_size =
     (if int (length hnd) < target_size then draw_loop (hnd @ [c]) dck target_size
      else (hnd, c # dck))"

definition draw_to_hand :: "GameState \<Rightarrow> nat \<Rightarrow> int \<Rightarrow> GameState" where
  "draw_to_hand st k target_size =
     (let player = players st ! k;
          (hnd, dck) = draw_loop (hand player) (deck player) target_size;
          player' = player\<lparr>hand := hnd, deck := dck\<rparr>
      in add_log (st\<lparr>players := (players st)[k := player']\<rparr>)
           (DrawsUpTo (PlayerState.name player') (length hnd)))"

definition start_turn :: "catalog \<Rightarrow> GameState \<Rightarrow> error + GameState" where
  "start_turn CARD_INDEX st =
     (case py_index (players st) (active_player_index st) of
        None \<Rightarrow> Inl IndexError
      | Some k \<Rightarrow>
          let player = players st ! k in
          if pending_control player \<and> check_control CARD_INDEX st (active_player_index st)
          then Inr (add_log (st\<lparr>winner := Some (PlayerState.name player)\<rparr>)
                      (KeepsControlAndWins (PlayerState.name player)))
          else
            let st1 = st\<lparr>actions_used := 0\<rparr>;
                b = biome st1;
                b1 = b\<lparr>cn := cn_base b + cn_temp b
                          + sum_list (map (\<lambda>p. cnPerTurn (CARD_INDEX (PlantInstance.card_id p)))
                                        (plants st1))\<rparr>;
                b2 = b1\<lparr>cn_temp := 0\<rparr>;
                st2 = add_log (st1\<lparr>biome := b2\<rparr>)
                        (TurnStarts (PlayerState.name player) (cn b2) (cn_base b2))
            in Inr (draw_to_hand st2 k 8))"

subsection \<open>Playing a card\<close>

definition find_viable_prey :: "catalog \<Rightarrow> GameState \<Rightarrow> int \<Rightarrow> ref list" where
  "find_viable_prey CARD_INDEX st predator_level =
     (let threshold = ceil_half predator_level
      in filter
           (\<lambda>animal. let c = CARD_INDEX (card_id (heap st animal))
                     in (type c = ''Herbivore'' \<or> type c = ''Omnivore'') \<and> level c \<ge> threshold)
           (animals st))"

definition can_play_animal :: "catalog \<Rightarrow> GameState \<Rightarrow> card \<Rightarrow> GameState \<times> bool" where
  "can_play_animal CARD_INDEX st c =
     (let biome_cn = cn (biome st);
          animal_type = type c;
          lv = level c;
          has_prey = (find_viable_prey CARD_INDEX st lv \<noteq> [])
      in if animal_type = ''Herbivore'' then
           (if biome_cn \<ge> lv then (st, True)
            else (add_log st NotEnoughCnForHerbivore, False))
         else if animal_type = ''Carnivore'' then
           (if has_prey then (st, True)
            else (add_log st NoViablePreyForCarnivore, False))
         else if animal_type = ''Omnivore'' then
           (if biome_cn \<ge> lv \<or> has_prey then (st, True)
            else (add_log st OmnivoreNeedsCnOrPrey, False))
         else (add_log st InvalidAnimalType, False))"

text \<open>
  \<open>AnimalInstance(...)\<close> makes a new object. Its address is one that \<open>state.animals\<close>
  does not hold: the successor of the greatest address on the table.
\<close>

definition new_ref :: "GameState \<Rightarrow> ref" where
  "new_ref st = foldr (\<lambda>r m. max (Suc r) m) (animals st) 0"

definition play_card :: "catalog \<Rightarrow> GameState \<Rightarrow> string \<Rightarrow> error + GameState \<times> bool" where
  "play_card CARD_INDEX st cid =
     (if truthy (winner st) then Inr (add_log st GameAlreadyOver, False)
      else case py_index (players st) (active_player_index st) of
        None \<Rightarrow> Inl IndexError
      | Some k \<Rightarrow>
          let player = players st ! k in
          if cid \<notin> set (hand player) then Inr (add_log st CardNotInHand, False)
          else if actions_used st \<ge> 3 then Inr (add_log st ActionsExhausted, False)
          else
            let c = CARD_INDEX cid in
            if kind c = ''plant'' then
              let plant = \<lparr>PlantInstance.instance_id = next_instance_id st,
                           PlantInstance.card_id = cid,
                           PlantInstance.owner = active_player_index st\<rparr>;
                  st1 = st\<lparr>next_instance_id := next_instance_id st + 1\<rparr>;
                  st2 = st1\<lparr>plants := plants st1 @ [plant]\<rparr>;
                  st3 = st2\<lparr>players := (players st2)[k := player\<lparr>hand := remove1 cid (hand player)\<rparr>]\<rparr>;
                  st4 = st3\<lparr>actions_used := actions_used st3 + 1\<rparr>
              in Inr (add_log st4 (PlaysPlant (PlayerState.name player) (card.name c)), True)
            else if kind c = ''animal'' then
              (case can_play_animal CARD_INDEX st c of
                 (st0, False) \<Rightarrow> Inr (st0, False)
               | (st0, True) \<Rightarrow>
                   let animal = \<lparr>instance_id = next_instance_id st0, card_id = cid,
                                 owner = active_player_index st0, hunger = 0\<rparr>;
                       a = new_ref st0;
                       st1 = st0\<lparr>heap := (heap st0)(a := animal),
                                  next_instance_id := next_instance_id st0 + 1\<rparr>;
                       st2 = st1\<lparr>animals := animals st1 @ [a]\<rparr>;
                       st3 = st2\<lparr>players := (players st2)[k := player\<lparr>hand := remove1 cid (hand player)\<rparr>]\<rparr>;
                       st4 = st3\<lparr>actions_used := actions_used st3 + 1\<rparr>
                   in Inr (add_log st4 (PlaysAnimal (PlayerState.name player) (card.name c) (level c)), True))
            else Inr (add_log st UnknownCardKind, False))"

subsection \<open>Hunting\<close>

definition set_hunger :: "GameState \<Rightarrow> ref \<Rightarrow> int \<Rightarrow> GameState" where
  "set_hunger st animal h = st\<lparr>heap := (heap st)(animal := (heap st animal)\<lparr>hunger := h\<rparr>)\<rparr>"

text \<open>\<open>animal.hunger += 1\<close>\<close>

definition inc_hunger :: "GameState \<Rightarrow> ref \<Rightarrow> GameState" where
  "inc_hunger st animal = set_hunger st animal (hunger (heap st animal) + 1)"

definition is_viable_prey :: "catalog \<Rightarrow> int \<Rightarrow> AnimalInstance \<Rightarrow> bool" where
  "is_viable_prey CARD_INDEX predator_level prey =
     (let threshold = ceil_half predator_level;
          prey_card = CARD_INDEX (card_id prey)
      in (type prey_card = ''Herbivore'' \<or> type prey_card = ''Omnivore'')
         \<and> level prey_card \<ge> threshold)"

definition weight_scaled :: "card \<Rightarrow> int" where
  "weight_scaled c = min 100 (trunc_div (weightKg c) 10)"

definition attack_score :: "card \<Rightarrow> int" where
  "attack_score predator_card = attack predator_card + trunc_div (weight_scaled predator_card) 5"

definition defense_score :: "card \<Rightarrow> int" where
  "defense_score prey_card = defense prey_card + trunc_div (weight_scaled prey_card) 4"

text \<open>The combat of \<open>resolve_single_hunt\<close>: what follows its evasion check.\<close>

definition hunt_combat :: "catalog \<Rightarrow> GameState \<Rightarrow> ref \<Rightarrow> ref \<Rightarrow> GameState \<times> bool" where
  "hunt_combat CARD_INDEX st predator prey =
     (let predator_card = CARD_INDEX (card_id (heap st predator));
          prey_card = CARD_INDEX (card_id (heap st prey))
      in if attack_score predator_card \<ge> defense_score prey_card then
           let st1 = add_log st (Eliminates (card.name predator_card) (card.name prey_card));
               st2 = st1\<lparr>animals :=
                       filter (\<lambda>a. instance_id (heap st1 a) \<noteq> instance_id (heap st1 prey))
                         (animals st1)\<rparr>;
               st3 = st2\<lparr>biome := (biome st2)\<lparr>cc := cc (biome st2) + level prey_card\<rparr>\<rparr>;
               st4 = (if level prey_card = level predator_card then set_hunger st3 predator 0
                      else set_hunger st3 predator (max (hunger (heap st3 predator) - 1) 0))
           in (st4, True)
         else (add_log st (Resists (card.name prey_card) (card.name predator_card)), False))"

definition resolve_single_hunt :: "catalog \<Rightarrow> GameState \<Rightarrow> ref \<Rightarrow> ref \<Rightarrow> GameState \<times> bool" where
  "resolve_single_hunt CARD_INDEX st predator prey =
     (let predator_card = CARD_INDEX (card_id (heap st predator));
          prey_card = CARD_INDEX (card_id (heap st prey))
      in if instinct predator_card \<ge> instinct prey_card then
           hunt_combat CARD_INDEX (add_log st (InstinctFavours (card.name predator_card)))
             predator prey
         else if mobility predator_card < mobility prey_card then
           (add_log st (EscapesByMobility (card.name prey_card)), False)
         else
           hunt_combat CARD_INDEX
             (add_log st (CatchesUp (card.name predator_card) (card.name prey_card)))
             predator prey)"

text \<open>
  The candidate predators of \<open>resolve_hunting\<close>, and the body of its loop: one predator
  of that list against the current state and the set of fed predators.
\<close>

definition hungry_predators :: "catalog \<Rightarrow> GameState \<Rightarrow> ref list" where
  "hungry_predators CARD_INDEX st =
     filter
       (\<lambda>animal. (type (CARD_INDEX (card_id (heap st animal))) = ''Carnivore''
                   \<or> type (CARD_INDEX (card_id (heap st animal))) = ''Omnivore'')
                  \<and> hunger (heap st animal) \<ge> 1)
       (animals st)"

definition hunt_step ::
  "catalog \<Rightarrow> (int \<rightharpoonup> int) \<Rightarrow> GameState \<times> int set \<Rightarrow> ref \<Rightarrow> GameState \<times> int set" where
  "hunt_step CARD_INDEX hunting_choices sf predator =
     (let st = fst sf; fed_predators = snd sf;
          predator_card = CARD_INDEX (card_id (heap st predator))
      in case hunting_choices (instance_id (heap st predator)) of
           None \<Rightarrow> (add_log st (NoHuntingTarget (card.name predator_card)), fed_predators)
         | Some prey_id \<Rightarrow>
             if prey_id = 0 then
               (add_log st (NoHuntingTarget (card.name predator_card)), fed_predators)
             else
               (case find (\<lambda>a. instance_id (heap st a) = prey_id) (animals st) of
                  None \<Rightarrow> (add_log st (InvalidTarget (card.name predator_card)), fed_predators)
                | Some prey \<Rightarrow>
                    if \<not> is_viable_prey CARD_INDEX (level predator_card) (heap st prey) then
                      (add_log st (CannotHuntThatPrey (card.name predator_card)), fed_predators)
                    else
                      let r = resolve_single_hunt CARD_INDEX st predator prey
                      in if snd r
                         then (fst r, insert (instance_id (heap (fst r) predator)) fed_predators)
                         else (fst r, fed_predators)))"

definition resolve_hunting ::
  "catalog \<Rightarrow> GameState \<Rightarrow> (int \<rightharpoonup> int) \<Rightarrow> GameState \<times> int set" where
  "resolve_hunting CARD_INDEX st hunting_choices =
     (let predators = hungry_predators CARD_INDEX st
      in if predators = [] then (add_log st NoHungryPredators, {})
         else foldl (hunt_step CARD_INDEX hunting_choices)
                (add_log st HuntingPhaseStarts, {}) predators)"

subsection \<open>Feeding\<close>

text \<open>
  \<open>sorted(xs, key=k, reverse=True)\<close>: descending by key, elements with equal keys in
  their original order.
\<close>

definition sorted_reverse :: "('a \<Rightarrow> int) \<Rightarrow> 'a list \<Rightarrow> 'a list" where
  "sorted_reverse k xs = sort_key (\<lambda>x. - k x) xs"

definition level_animals :: "catalog \<Rightarrow> GameState \<Rightarrow> int \<Rightarrow> ref list" where
  "level_animals CARD_INDEX st lv =
     filter
       (\<lambda>animal. (type (CARD_INDEX (card_id (heap st animal))) = ''Herbivore''
                   \<or> type (CARD_INDEX (card_id (heap st animal))) = ''Omnivore'')
                  \<and> level (CARD_INDEX (card_id (heap st animal))) = lv)
       (animals st)"

text \<open>The body of the level loop of \<open>resolve_feeding\<close>.\<close>

definition feed_level :: "catalog \<Rightarrow> GameState \<Rightarrow> int \<Rightarrow> GameState" where
  "feed_level CARD_INDEX st lv =
     (let las = level_animals CARD_INDEX st lv
      in if las = [] then st
         else
           let total_needed = lv * int (length las)
           in if cn (biome st) \<ge> total_needed then
                let st1 = st\<lparr>biome := (biome st)\<lparr>cn := cn (biome st) - total_needed\<rparr>\<rparr>;
                    st2 = foldl (\<lambda>s animal. set_hunger s animal 0) st1 las
                in add_log st2 (LevelAllFed lv (cn (biome st2)))
              else
                let st1 = add_log st (LevelCnInsufficient lv (cn (biome st)) (length las));
                    duel_candidates =
                      sorted_reverse (\<lambda>a. weightKg (CARD_INDEX (card_id (heap st1 a)))) las
                in if length duel_candidates \<ge> 2 \<and> cn (biome st1) \<ge> lv then
                     let winner_a = duel_candidates ! 0;
                         loser_a = duel_candidates ! 1;
                         st2 = st1\<lparr>biome := (biome st1)\<lparr>cn := cn (biome st1) - lv\<rparr>\<rparr>;
                         st3 = set_hunger st2 winner_a 0;
                         st4 = inc_hunger st3 loser_a;
                         st5 = add_log st4
                                 (Duel (card.name (CARD_INDEX (card_id (heap st4 winner_a))))
                                       (card.name (CARD_INDEX (card_id (heap st4 loser_a)))))
                     in foldl
                          (\<lambda>s animal.
                             if instance_id (heap s animal) \<noteq> instance_id (heap s winner_a)
                                \<and> instance_id (heap s animal) \<noteq> instance_id (heap s loser_a)
                             then inc_hunger s animal else s)
                          st5 las
                   else add_log (foldl inc_hunger st1 las) NoCnForDuel)"

definition unfed_carnivores :: "catalog \<Rightarrow> GameState \<Rightarrow> int set \<Rightarrow> ref list" where
  "unfed_carnivores CARD_INDEX st fed_predators =
     filter
       (\<lambda>animal. type (CARD_INDEX (card_id (heap st animal))) = ''Carnivore''
                  \<and> instance_id (heap st animal) \<notin> fed_predators)
       (animals st)"

definition feed_levels :: "catalog \<Rightarrow> GameState \<Rightarrow> GameState" where
  "feed_levels CARD_INDEX st = foldl (feed_level CARD_INDEX) st [1 .. lmax (biome st)]"

definition resolve_feeding :: "catalog \<Rightarrow> GameState \<Rightarrow> int set \<Rightarrow> GameState" where
  "resolve_feeding CARD_INDEX st fed_predators =
     (let st1 = feed_levels CARD_INDEX (add_log st FeedingPhaseStarts);
          unfed = unfed_carnivores CARD_INDEX st1 fed_predators
      in if unfed \<noteq> [] then add_log (foldl inc_hunger st1 unfed) UnfedCarnivoresHunger
         else st1)"

subsection \<open>Starvation, conversion, end of a turn, start of the game\<close>

text \<open>
  \<open>a not in dead\<close> compares with \<open>is\<close> and then with the \<open>==\<close> of the data class, which
  compares the fields.
\<close>

definition resolve_starvation :: "catalog \<Rightarrow> GameState \<Rightarrow> GameState" where
  "resolve_starvation CARD_INDEX st =
     (let dead = filter (\<lambda>animal. hunger (heap st animal) \<ge> 2) (animals st)
      in if dead \<noteq> [] then
           let st1 = foldl
                       (\<lambda>s animal.
                          let c = CARD_INDEX (card_id (heap s animal))
                          in add_log (s\<lparr>biome := (biome s)\<lparr>cc := cc (biome s) + level c\<rparr>\<rparr>)
                               (DiesOfHunger (card.name c)))
                       st dead
           in st1\<lparr>animals :=
                    filter (\<lambda>a. \<not> list_ex (\<lambda>d. d = a \<or> heap st1 d = heap st1 a) dead)
                      (animals st1)\<rparr>
         else add_log st NoStarvation)"

definition resolve_conversion :: "GameState \<Rightarrow> GameState" where
  "resolve_conversion st =
     (let st1 = st\<lparr>biome := (biome st)\<lparr>cn_temp := (2 * cc (biome st)) div 5\<rparr>\<rparr>;
          st2 = add_log st1 (Conversion (cn_temp (biome st1)))
      in st2\<lparr>biome := (biome st2)\<lparr>cc := 0\<rparr>\<rparr>)"

definition set_pending_control :: "GameState \<Rightarrow> nat \<Rightarrow> bool \<Rightarrow> GameState" where
  "set_pending_control st k b =
     st\<lparr>players := (players st)[k := (players st ! k)\<lparr>pending_control := b\<rparr>]\<rparr>"

definition end_turn ::
  "catalog \<Rightarrow> GameState \<Rightarrow> (int \<rightharpoonup> int) option \<Rightarrow> error + GameState" where
  "end_turn CARD_INDEX st hunting_choices =
     (if truthy (winner st) then Inr st
      else
        let choices = (case hunting_choices of None \<Rightarrow> Map.empty | Some m \<Rightarrow> m);
            hunted = resolve_hunting CARD_INDEX st choices;
            st1 = resolve_feeding CARD_INDEX (fst hunted) (snd hunted);
            st2 = resolve_starvation CARD_INDEX st1;
            st3 = resolve_conversion st2
        in case py_index (players st3) (active_player_index st3) of
             None \<Rightarrow> Inl IndexError
           | Some k \<Rightarrow>
               let active_player = players st3 ! k;
                   st4 = (if check_control CARD_INDEX st3 (active_player_index st3)
                          then add_log (set_pending_control st3 k True)
                                 (ControlThreat (PlayerState.name active_player))
                          else set_pending_control st3 k False);
                   st5 = st4\<lparr>active_player_index :=
                              (active_player_index st4 + 1) mod int (length (players st4))\<rparr>
               in start_turn CARD_INDEX st5)"

text \<open>
  \<open>start_game\<close> shuffles the two starter decks; the shuffled decks are its arguments here.
\<close>

definition no_animal :: AnimalInstance where
  "no_animal = \<lparr>instance_id = 0, card_id = [], owner = 0, hunger = 0\<rparr>"

definition start_game :: "catalog \<Rightarrow> string list \<Rightarrow> string list \<Rightarrow> error + GameState" where
  "start_game CARD_INDEX deck1 deck2 =
     (let ps = [\<lparr>name = ''Jugador 1'', deck = deck1, hand = [], pending_control = False\<rparr>,
                \<lparr>name = ''Jugador 2'', deck = deck2, hand = [], pending_control = False\<rparr>];
          b = \<lparr>BiomeState.name = ''Bosque'', cn_base = 4, lmax = 6, cc = 0, cn_temp = 0, cn = 0\<rparr>;
          state = \<lparr>players = ps, biome = b, heap = (\<lambda>_. no_animal), animals = [], plants = [],
                    active_player_index = 0, actions_used = 0, next_instance_id = 1,
                    log = [], winner = None\<rparr>
      in start_turn CARD_INDEX (add_log state GameStarted))"

subsection \<open>A catalogue and tables for the examples\<close>

text \<open>
  A small catalogue in the format of the data model (one animal card of every level from
  1 to 6, every other identifier a plant), and a way to set up a table: the objects at
  the addresses \<open>0, 1, \<dots>\<close>, all of them in \<open>state.animals\<close>, in a two-player game in
  the biome of \<open>start_game\<close>.
\<close>

definition animal_card ::
  "string \<Rightarrow> string \<Rightarrow> int \<Rightarrow> int \<Rightarrow> int \<Rightarrow> int \<Rightarrow> int \<Rightarrow> int \<Rightarrow> card" where
  "animal_card nm ty lv att dfn ins mob w =
     \<lparr>kind = ''animal'', card.name = nm, cnPerTurn = 0, type = ty, level = lv, attack = att,
      defense = dfn, instinct = ins, mobility = mob, weightKg = w\<rparr>"

definition plant_card :: "string \<Rightarrow> int \<Rightarrow> card" where
  "plant_card nm c =
     \<lparr>kind = ''plant'', card.name = nm, cnPerTurn = c, type = [], level = 0, attack = 0,
      defense = 0, instinct = 0, mobility = 0, weightKg = 0\<rparr>"

definition demo_catalog :: catalog where
  "demo_catalog cid =
     (if cid = ''hare'' then animal_card ''Hare'' ''Herbivore'' 1 5 5 30 80 4
      else if cid = ''boar'' then animal_card ''Boar'' ''Omnivore'' 2 25 20 40 45 90
      else if cid = ''deer'' then animal_card ''Deer'' ''Herbivore'' 3 20 40 50 60 300
      else if cid = ''elk'' then animal_card ''Elk'' ''Herbivore'' 3 25 45 50 55 500
      else if cid = ''wolf'' then animal_card ''Wolf'' ''Carnivore'' 4 45 30 70 65 50
      else if cid = ''bear'' then animal_card ''Bear'' ''Omnivore'' 5 50 45 55 40 800
      else if cid = ''moose'' then animal_card ''Moose'' ''Herbivore'' 6 30 60 45 50 600
      else plant_card ''Fern'' 2)"

definition animal :: "int \<Rightarrow> string \<Rightarrow> int \<Rightarrow> int \<Rightarrow> AnimalInstance" where
  "animal i cid own h = \<lparr>instance_id = i, card_id = cid, owner = own, hunger = h\<rparr>"

definition heap_of :: "AnimalInstance list \<Rightarrow> ref \<Rightarrow> AnimalInstance" where
  "heap_of objs r = (if r < length objs then objs ! r else no_animal)"

definition demo_state :: "AnimalInstance list \<Rightarrow> int \<Rightarrow> bool \<Rightarrow> GameState" where
  "demo_state objs c pend =
     \<lparr>players = [\<lparr>name = ''Jugador 1'', deck = [], hand = [], pending_control = pend\<rparr>,
                 \<lparr>name = ''Jugador 2'', deck = [], hand = [], pending_control = False\<rparr>],
      biome = \<lparr>BiomeState.name = ''Bosque'', cn_base = 4, lmax = 6, cc = 0, cn_temp = 0, cn = c\<rparr>,
      heap = heap_of objs, animals = [0 ..< length objs], plants = [],
      active_player_index = 0, actions_used = 0, next_instance_id = int (length objs) + 1,
      log = [], winner = None\<rparr>"

text \<open>Player 0 has an animal of every level from 1 to 6, and the pending flag.\<close>

definition control_table :: GameState where
  "control_table =
     demo_state [animal 1 ''hare'' 0 0, animal 2 ''boar'' 0 0, animal 3 ''deer'' 0 0,
                 animal 4 ''wolf'' 0 0, animal 5 ''bear'' 0 0, animal 6 ''moose'' 0 0] 4 True"

text \<open>The same after the level-3 animal has been killed (scenario D of the specification).\<close>

definition broken_control_table :: GameState where
  "broken_control_table =
     demo_state [animal 1 ''hare'' 0 0, animal 2 ''boar'' 0 0,
                 animal 4 ''wolf'' 0 0, animal 5 ''bear'' 0 0, animal 6 ''moose'' 0 0] 4 True"

text \<open>
  A bear (attack 50, 800 kg) and a deer (defense 40, 300 kg): scenario B of the
  specification. The bear is hungry.
\<close>

definition bear_and_deer :: GameState where
  "bear_and_deer = demo_state [animal 1 ''bear'' 0 1, animal 2 ''deer'' 1 0] 4 False"

text \<open>
  A hungry wolf (instance 1), a hungry boar (instance 2) and a hare (instance 3), with the
  choices "the wolf hunts the boar, the boar hunts the hare".
\<close>

definition hunt_chain_table :: GameState where
  "hunt_chain_table =
     demo_state [animal 1 ''wolf'' 0 1, animal 2 ''boar'' 1 1, animal 3 ''hare'' 1 0] 4 False"

definition hunt_chain_choices :: "int \<rightharpoonup> int" where
  "hunt_chain_choices = [1 \<mapsto> 2, 2 \<mapsto> 3]"

text \<open>
  Two herbivores of level 3, a deer of 300 kg (instance 1) and an elk of 500 kg
  (instance 2), and a wolf, with \<open>cn = 3\<close>: scenario C of the specification.
\<close>

definition two_grazers_table :: GameState where
  "two_grazers_table =
     demo_state [animal 1 ''deer'' 0 0, animal 2 ''elk'' 1 0, animal 3 ''wolf'' 1 0] 3 False"

subsection \<open>The arithmetic of the specification\<close>

text \<open>
  The specification's \<open>truncate\<close>, on real numbers: the integer part, towards zero.
\<close>

definition spec_truncate :: "real \<Rightarrow> int" where
  "spec_truncate x = (if 0 \<le> x then \<lfloor>x\<rfloor> else \<lceil>x\<rceil>)"

subsection \<open>Runs of the game\<close>

text \<open>
  The states that a game can reach: \<open>start_game\<close> on some shuffle of the two starter
  decks, then any sequence of \<open>play_card\<close> and \<open>end_turn\<close> calls that return (the
  presentation layer of main.py calls nothing else).
\<close>

inductive reachable :: "catalog \<Rightarrow> string list \<Rightarrow> string list \<Rightarrow> GameState \<Rightarrow> bool"
  for CARD_INDEX :: catalog and DECK_P1 :: "string list" and DECK_P2 :: "string list" where
  started: "mset deck1 = mset DECK_P1 \<Longrightarrow> mset deck2 = mset DECK_P2 \<Longrightarrow>
            start_game CARD_INDEX deck1 deck2 = Inr st \<Longrightarrow>
            reachable CARD_INDEX DECK_P1 DECK_P2 st"
| played: "reachable CARD_INDEX DECK_P1 DECK_P2 st \<Longrightarrow>
           play_card CARD_INDEX st cid = Inr (st', ok) \<Longrightarrow>
           reachable CARD_INDEX DECK_P1 DECK_P2 st'"
| turn_ended: "reachable CARD_INDEX DECK_P1 DECK_P2 st \<Longrightarrow>
               end_turn CARD_INDEX st hunting_choices = Inr st' \<Longrightarrow>
               reachable CARD_INDEX DECK_P1 DECK_P2 st'"

text \<open>
  What the data model says of the catalogue: an animal card has a level that is not
  negative (it is positive), and a plant card generates no negative food.
\<close>

definition catalog_ok :: "catalog \<Rightarrow> bool" where
  "catalog_ok CARD_INDEX \<longleftrightarrow>
     (\<forall>cid. (kind (CARD_INDEX cid) = ''animal'' \<longrightarrow> 0 \<le> level (CARD_INDEX cid))
          \<and> (kind (CARD_INDEX cid) = ''plant'' \<longrightarrow> 0 \<le> cnPerTurn (CARD_INDEX cid)))"

subsection \<open>Relations and invariants used in the proofs\<close>

text \<open>
  \<open>same_game st st'\<close>: from \<open>st\<close> to \<open>st'\<close> nothing has changed but hunger values, the
  counters \<open>cn\<close>, \<open>cc\<close> and \<open>cn_temp\<close>, the log, and the table, which has lost animals at
  most. The four resolvers of \<open>end_turn\<close> are of this kind.
\<close>

definition same_game :: "GameState \<Rightarrow> GameState \<Rightarrow> bool" where
  "same_game st st' \<longleftrightarrow>
     players st' = players st \<and> plants st' = plants st
     \<and> active_player_index st' = active_player_index st
     \<and> actions_used st' = actions_used st
     \<and> next_instance_id st' = next_instance_id st
     \<and> winner st' = winner st
     \<and> BiomeState.name (biome st') = BiomeState.name (biome st)
     \<and> cn_base (biome st') = cn_base (biome st)
     \<and> lmax (biome st') = lmax (biome st)
     \<and> (\<forall>a. instance_id (heap st' a) = instance_id (heap st a)
            \<and> card_id (heap st' a) = card_id (heap st a)
            \<and> owner (heap st' a) = owner (heap st a))
     \<and> (\<exists>P. animals st' = filter P (animals st))"

text \<open>
  \<open>sound\<close>: the counters are not negative, the animals on the table are animal cards and
  the plants are plant cards.
\<close>

definition sound :: "catalog \<Rightarrow> GameState \<Rightarrow> bool" where
  "sound CARD_INDEX st \<longleftrightarrow>
     0 \<le> cn (biome st) \<and> 0 \<le> cc (biome st) \<and> 0 \<le> cn_temp (biome st)
     \<and> 0 \<le> cn_base (biome st)
     \<and> (\<forall>a \<in> set (animals st). kind (CARD_INDEX (card_id (heap st a))) = ''animal'')
     \<and> (\<forall>p \<in> set (plants st). kind (CARD_INDEX (PlantInstance.card_id p)) = ''plant'')"

text \<open>The state that \<open>end_turn\<close> has after its four resolvers.\<close>

definition end_turn_resolution ::
  "catalog \<Rightarrow> GameState \<Rightarrow> (int \<rightharpoonup> int) option \<Rightarrow> GameState" where
  "end_turn_resolution CARD_INDEX st hunting_choices =
     (let choices = (case hunting_choices of None \<Rightarrow> Map.empty | Some m \<Rightarrow> m);
          hunted = resolve_hunting CARD_INDEX st choices;
          st1 = resolve_feeding CARD_INDEX (fst hunted) (snd hunted);
          st2 = resolve_starvation CARD_INDEX st1
      in resolve_conversion st2)"

text \<open>
  The table of player 0's control at the end of a turn of player 1, who has used two
  actions.
\<close>

definition before_win_table :: GameState where
  "before_win_table = control_table\<lparr>active_player_index := 1, actions_used := 2\<rparr>"

text \<open>
  The state that \<open>start_game\<close> returns for the decks \<open>[hare, fern]\<close> and \<open>[wolf]\<close>.
\<close>

definition opening_state :: GameState where
  "opening_state =
     \<lparr>players = [\<lparr>name = ''Jugador 1'', deck = [], hand = [''hare'', ''fern''],
                  pending_control = False\<rparr>,
                 \<lparr>name = ''Jugador 2'', deck = [''wolf''], hand = [], pending_control = False\<rparr>],
      biome = \<lparr>BiomeState.name = ''Bosque'', cn_base = 4, lmax = 6, cc = 0, cn_temp = 0, cn = 4\<rparr>,
      heap = (\<lambda>_. no_animal), animals = [], plants = [],
      active_player_index = 0, actions_used = 0, next_instance_id = 1,
      log = [GameStarted, TurnStarts ''Jugador 1'' 4 4, DrawsUpTo ''Jugador 1'' 2],
      winner = None\<rparr>"

text \<open>The table without its strictly carnivorous animals.\<close>

definition without_carnivores :: "catalog \<Rightarrow> GameState \<Rightarrow> GameState" where
  "without_carnivores CARD_INDEX st =
     st\<lparr>animals := filter (\<lambda>a. type (CARD_INDEX (card_id (heap st a))) \<noteq> ''Carnivore'')
                      (animals st)\<rparr>"

section \<open>Properties\<close>

subsection \<open>Frame lemmas of the small steps\<close>

lemma add_log_simps [simp]:
  "players (add_log st m) = players st"
  "biome (add_log st m) = biome st"
  "heap (add_log st m) = heap st"
  "animals (add_log st m) = animals st"
  "plants (add_log st m) = plants st"
  "active_player_index (add_log st m) = active_player_index st"
  "actions_used (add_log st m) = actions_used st"
  "next_instance_id (add_log st m) = next_instance_id st"
  "winner (add_log st m) = winner st"
  "log (add_log st m) = log st @ [m]"
  by (simp_all add: add_log_def)

lemma py_index_bound: "py_index xs i = Some k \<Longrightarrow> k < length xs"
  by (auto simp: py_index_def Let_def split: if_splits)

lemma map_update_same: "f x = f (xs ! k) \<Longrightarrow> map f (xs[k := x]) = map f xs"
  by (induction xs arbitrary: k) (auto split: nat.splits)

lemma draw_to_hand_frame [simp]:
  "biome (draw_to_hand st k t) = biome st"
  "heap (draw_to_hand st k t) = heap st"
  "animals (draw_to_hand st k t) = animals st"
  "plants (draw_to_hand st k t) = plants st"
  "active_player_index (draw_to_hand st k t) = active_player_index st"
  "actions_used (draw_to_hand st k t) = actions_used st"
  "next_instance_id (draw_to_hand st k t) = next_instance_id st"
  "winner (draw_to_hand st k t) = winner st"
  by (simp_all add: draw_to_hand_def Let_def split: prod.splits)

lemma draw_to_hand_players:
  "length (players (draw_to_hand st k t)) = length (players st)"
  "map pending_control (players (draw_to_hand st k t)) = map pending_control (players st)"
  "map PlayerState.name (players (draw_to_hand st k t)) = map PlayerState.name (players st)"
  by (simp_all add: draw_to_hand_def Let_def map_update_same split: prod.splits)

lemma check_control_iff:
  "check_control CARD_INDEX st p \<longleftrightarrow>
     (\<forall>lv. 1 \<le> lv \<and> lv \<le> lmax (biome st) \<longrightarrow>
        (\<exists>a \<in> set (animals st). level (CARD_INDEX (card_id (heap st a))) = lv
                                    \<and> owner (heap st a) = p))"
  by (auto simp: check_control_def list_all_iff list_ex_iff)


lemma start_turn_wins:
  assumes "py_index (players st) (active_player_index st) = Some k"
    and "pending_control (players st ! k)"
    and "check_control CARD_INDEX st (active_player_index st)"
  shows "start_turn CARD_INDEX st =
           Inr (st\<lparr>winner := Some (PlayerState.name (players st ! k)),
                    log := log st @ [KeepsControlAndWins (PlayerState.name (players st ! k))]\<rparr>)"
  using assms by (simp add: start_turn_def add_log_def Let_def)

lemma start_turn_goes_on:
  assumes "py_index (players st) (active_player_index st) = Some k"
    and "\<not> (pending_control (players st ! k) \<and> check_control CARD_INDEX st (active_player_index st))"
  shows "\<exists>st'. start_turn CARD_INDEX st = Inr st' \<and> winner st' = winner st
           \<and> actions_used st' = 0
           \<and> map pending_control (players st') = map pending_control (players st)
           \<and> biome st' = (biome st)\<lparr>cn := cn_base (biome st) + cn_temp (biome st)
                   + sum_list (map (\<lambda>p. cnPerTurn (CARD_INDEX (PlantInstance.card_id p))) (plants st)),
                 cn_temp := 0\<rparr>"
  using assms by (auto simp add: start_turn_def Let_def draw_to_hand_players)

subsection \<open>Control and the confirmed win\<close>

text \<open>
  C2. \<open>check_control\<close> holds for a player exactly when, for every level from 1 to
  \<open>lmax\<close>, some animal on the table has a card of that level and that player as owner.
  \<open>start_turn\<close> (for an active player that exists) declares the winner exactly when the
  active player has the pending flag and \<open>check_control\<close> holds: then it sets \<open>winner\<close>
  to the player's name, logs it and does nothing else; otherwise it leaves \<open>winner\<close> as it
  was and goes on to reset \<open>actions_used\<close>.
\<close>

theorem control_check_and_confirmed_win:
  "(check_control CARD_INDEX st p \<longleftrightarrow>
      (\<forall>lv. 1 \<le> lv \<and> lv \<le> lmax (biome st) \<longrightarrow>
         (\<exists>a \<in> set (animals st). level (CARD_INDEX (card_id (heap st a))) = lv
                                     \<and> owner (heap st a) = p)))
   \<and> (py_index (players st) (active_player_index st) = Some k \<longrightarrow>
        (if pending_control (players st ! k)
            \<and> check_control CARD_INDEX st (active_player_index st)
         then start_turn CARD_INDEX st =
                Inr (st\<lparr>winner := Some (PlayerState.name (players st ! k)),
                         log := log st @ [KeepsControlAndWins (PlayerState.name (players st ! k))]\<rparr>)
         else (\<exists>st'. start_turn CARD_INDEX st = Inr st' \<and> winner st' = winner st
                 \<and> actions_used st' = 0)))"
proof (intro conjI impI)
  show "check_control CARD_INDEX st p \<longleftrightarrow>
      (\<forall>lv. 1 \<le> lv \<and> lv \<le> lmax (biome st) \<longrightarrow>
         (\<exists>a \<in> set (animals st). level (CARD_INDEX (card_id (heap st a))) = lv
                                     \<and> owner (heap st a) = p))"
    by (rule check_control_iff)
next
  assume k: "py_index (players st) (active_player_index st) = Some k"
  show "if pending_control (players st ! k)
            \<and> check_control CARD_INDEX st (active_player_index st)
         then start_turn CARD_INDEX st =
                Inr (st\<lparr>winner := Some (PlayerState.name (players st ! k)),
                         log := log st @ [KeepsControlAndWins (PlayerState.name (players st ! k))]\<rparr>)
         else (\<exists>st'. start_turn CARD_INDEX st = Inr st' \<and> winner st' = winner st
                 \<and> actions_used st' = 0)"
  proof (cases "pending_control (players st ! k)
            \<and> check_control CARD_INDEX st (active_player_index st)")
    case True
    with k show ?thesis by (simp add: start_turn_wins)
  next
    case False
    from start_turn_goes_on [OF k False] False show ?thesis by auto
  qed
qed

text \<open>
  The table with all six levels is controlled and is won at the start of the turn; the
  table without the level-3 animal is neither.
\<close>

theorem control_check_and_confirmed_win_witness:
  "check_control demo_catalog control_table 0
   \<and> py_index (players control_table) (active_player_index control_table) = Some 0
   \<and> pending_control (players control_table ! 0)
   \<and> start_turn demo_catalog control_table =
       Inr (control_table\<lparr>winner := Some ''Jugador 1'',
                           log := [KeepsControlAndWins ''Jugador 1'']\<rparr>)
   \<and> \<not> check_control demo_catalog broken_control_table 0
   \<and> (\<exists>st'. start_turn demo_catalog broken_control_table = Inr st'
          \<and> winner st' = None \<and> actions_used st' = 0)"
proof -
  have c: "check_control demo_catalog control_table 0"
    by (simp add: check_control_def control_table_def demo_state_def heap_of_def animal_def
          demo_catalog_def animal_card_def upto.simps upt_rec [of 0] upt_rec [of 1] upt_rec [of 2]
          upt_rec [of 3] upt_rec [of 4] upt_rec [of 5] upt_rec [of 6])
  have k: "py_index (players control_table) (active_player_index control_table) = Some 0"
    by (simp add: py_index_def control_table_def demo_state_def)
  have p: "pending_control (players control_table ! 0)"
    by (simp add: control_table_def demo_state_def)
  have nc: "\<not> check_control demo_catalog broken_control_table 0"
    by (simp add: check_control_def broken_control_table_def demo_state_def heap_of_def animal_def
          demo_catalog_def animal_card_def upto.simps upt_rec [of 0] upt_rec [of 1] upt_rec [of 2]
          upt_rec [of 3] upt_rec [of 4] upt_rec [of 5] upt_rec [of 6])
  have k': "py_index (players broken_control_table) (active_player_index broken_control_table) = Some 0"
    by (simp add: py_index_def broken_control_table_def demo_state_def)
  have w: "winner broken_control_table = None" "active_player_index broken_control_table = 0"
     "active_player_index control_table = 0" "log control_table = []"
     "PlayerState.name (players control_table ! 0) = ''Jugador 1''"
    by (simp_all add: broken_control_table_def control_table_def demo_state_def)
  from control_check_and_confirmed_win [of demo_catalog control_table 0 0] c k p w
  have 1: "start_turn demo_catalog control_table =
       Inr (control_table\<lparr>winner := Some ''Jugador 1'',
                           log := [KeepsControlAndWins ''Jugador 1'']\<rparr>)"
    by simp
  from control_check_and_confirmed_win [of demo_catalog broken_control_table 0 0] nc k' w
  have 2: "\<exists>st'. start_turn demo_catalog broken_control_table = Inr st'
          \<and> winner st' = None \<and> actions_used st' = 0"
    by simp
  from c k p 1 nc 2 show ?thesis by blast
qed


subsection \<open>A confirmation that fails\<close>

lemma start_turn_keeps_flags:
  assumes "start_turn CARD_INDEX st = Inr st'"
  shows "map pending_control (players st') = map pending_control (players st)"
    and "length (players st') = length (players st)"
    and "active_player_index st' = active_player_index st"
  using assms
  by (auto simp: start_turn_def Let_def draw_to_hand_players split: option.splits if_splits)

text \<open>
  C1, as the code has it. When the active player has the pending flag and
  \<open>check_control\<close> does not hold at \<open>start_turn\<close>, no winner is declared (\<open>winner\<close> stays
  as it was) and the turn starts; \<open>start_turn\<close> writes no pending flag, so the flag of the
  active player is still set after the call.
\<close>

theorem failed_confirmation_keeps_flag:
  assumes "py_index (players st) (active_player_index st) = Some k"
    and "pending_control (players st ! k)"
    and "\<not> check_control CARD_INDEX st (active_player_index st)"
  shows "\<exists>st'. start_turn CARD_INDEX st = Inr st' \<and> winner st' = winner st
           \<and> pending_control (players st' ! k)
           \<and> map pending_control (players st') = map pending_control (players st)"
proof -
  from start_turn_goes_on [OF assms(1)] assms(3)
  obtain st' where st': "start_turn CARD_INDEX st = Inr st'" "winner st' = winner st"
    "map pending_control (players st') = map pending_control (players st)"
    by blast
  from assms(1) have k: "k < length (players st)" by (rule py_index_bound)
  from st'(3) have "length (players st') = length (players st)"
    by (metis length_map)
  with k st'(3) have "pending_control (players st' ! k) = pending_control (players st ! k)"
    by (metis nth_map)
  with st' assms(2) show ?thesis by simp
qed

theorem failed_confirmation_keeps_flag_witness:
  "py_index (players broken_control_table) (active_player_index broken_control_table) = Some 0
   \<and> pending_control (players broken_control_table ! 0)
   \<and> \<not> check_control demo_catalog broken_control_table (active_player_index broken_control_table)
   \<and> (\<exists>st'. start_turn demo_catalog broken_control_table = Inr st' \<and> winner st' = None
           \<and> pending_control (players st' ! 0)
           \<and> map pending_control (players st') = [True, False])"
proof -
  have k: "py_index (players broken_control_table) (active_player_index broken_control_table) = Some 0"
    by (simp add: py_index_def broken_control_table_def demo_state_def)
  have p: "pending_control (players broken_control_table ! 0)"
    by (simp add: broken_control_table_def demo_state_def)
  have nc: "\<not> check_control demo_catalog broken_control_table (active_player_index broken_control_table)"
    by (simp add: check_control_def broken_control_table_def demo_state_def heap_of_def animal_def
          demo_catalog_def animal_card_def upto.simps upt_rec [of 0] upt_rec [of 1] upt_rec [of 2]
          upt_rec [of 3] upt_rec [of 4] upt_rec [of 5])
  have w: "winner broken_control_table = None"
    "map pending_control (players broken_control_table) = [True, False]"
    by (simp_all add: broken_control_table_def demo_state_def)
  from failed_confirmation_keeps_flag [OF k p nc] w k p nc show ?thesis by simp
qed

text \<open>
  C1 as stated fails on the table of scenario D: player 0 has the flag, the level-3 animal
  is gone, \<open>start_turn\<close> returns normally without a winner, and the flag of player 0 is
  still set.
\<close>

theorem flag_not_cleared_by_start_turn:
  "pending_control (players broken_control_table ! 0)
   \<and> \<not> check_control demo_catalog broken_control_table (active_player_index broken_control_table)
   \<and> \<not> isl (start_turn demo_catalog broken_control_table)
   \<and> winner (projr (start_turn demo_catalog broken_control_table)) = None
   \<and> pending_control (players (projr (start_turn demo_catalog broken_control_table)) ! 0)"
  by (simp add: start_turn_def py_index_def check_control_def broken_control_table_def demo_state_def
        heap_of_def animal_def demo_catalog_def animal_card_def upto.simps draw_to_hand_def
        add_log_def Let_def
        upt_rec [of 0] upt_rec [of 1] upt_rec [of 2] upt_rec [of 3] upt_rec [of 4] upt_rec [of 5])

subsection \<open>Legality of an animal card\<close>

lemma ceil_half_eq: "ceil_half l = \<lceil>real_of_int l / 2\<rceil>"
  unfolding ceil_half_def by linarith

text \<open>
  C3. The viable preys for a predator of level \<open>l\<close> are the animals on the table, of any
  owner, whose card is a Herbivore or an Omnivore of level at least \<open>\<lceil>l / 2\<rceil>\<close>.
  \<open>can_play_animal\<close> returns true for a Herbivore card iff \<open>cn\<close> is at least the level of
  the card, for a Carnivore card iff a viable prey exists, and for an Omnivore card iff one
  of the two holds.
\<close>

theorem animal_card_legality:
  "set (find_viable_prey CARD_INDEX st l) =
     {a \<in> set (animals st).
        (type (CARD_INDEX (card_id (heap st a))) = ''Herbivore''
         \<or> type (CARD_INDEX (card_id (heap st a))) = ''Omnivore'')
        \<and> \<lceil>real_of_int l / 2\<rceil> \<le> level (CARD_INDEX (card_id (heap st a)))}
   \<and> (type c = ''Herbivore'' \<longrightarrow>
        (snd (can_play_animal CARD_INDEX st c) \<longleftrightarrow> level c \<le> cn (biome st)))
   \<and> (type c = ''Carnivore'' \<longrightarrow>
        (snd (can_play_animal CARD_INDEX st c) \<longleftrightarrow>
           (\<exists>a. a \<in> set (find_viable_prey CARD_INDEX st (level c)))))
   \<and> (type c = ''Omnivore'' \<longrightarrow>
        (snd (can_play_animal CARD_INDEX st c) \<longleftrightarrow>
           level c \<le> cn (biome st)
           \<or> (\<exists>a. a \<in> set (find_viable_prey CARD_INDEX st (level c)))))"
proof -
  have ne: "find_viable_prey CARD_INDEX st (level c) \<noteq> [] \<longleftrightarrow>
              (\<exists>a. a \<in> set (find_viable_prey CARD_INDEX st (level c)))"
    by (cases "find_viable_prey CARD_INDEX st (level c)") auto
  have 1: "set (find_viable_prey CARD_INDEX st l) =
     {a \<in> set (animals st).
        (type (CARD_INDEX (card_id (heap st a))) = ''Herbivore''
         \<or> type (CARD_INDEX (card_id (heap st a))) = ''Omnivore'')
        \<and> \<lceil>real_of_int l / 2\<rceil> \<le> level (CARD_INDEX (card_id (heap st a)))}"
    by (auto simp: find_viable_prey_def Let_def ceil_half_eq)
  have 2: "type c = ''Herbivore'' \<longrightarrow>
        (snd (can_play_animal CARD_INDEX st c) \<longleftrightarrow> level c \<le> cn (biome st))"
    by (simp add: can_play_animal_def Let_def)
  have 3: "type c = ''Carnivore'' \<longrightarrow>
        (snd (can_play_animal CARD_INDEX st c) \<longleftrightarrow>
           (\<exists>a. a \<in> set (find_viable_prey CARD_INDEX st (level c))))"
    using ne by (simp add: can_play_animal_def Let_def)
  have 4: "type c = ''Omnivore'' \<longrightarrow>
        (snd (can_play_animal CARD_INDEX st c) \<longleftrightarrow>
           level c \<le> cn (biome st)
           \<or> (\<exists>a. a \<in> set (find_viable_prey CARD_INDEX st (level c))))"
    using ne by (simp add: can_play_animal_def Let_def)
  from 1 2 3 4 show ?thesis by blast
qed

theorem animal_card_legality_witness:
  "type (demo_catalog ''deer'') = ''Herbivore''
   \<and> snd (can_play_animal demo_catalog control_table (demo_catalog ''deer''))
   \<and> type (demo_catalog ''moose'') = ''Herbivore''
   \<and> \<not> snd (can_play_animal demo_catalog control_table (demo_catalog ''moose''))
   \<and> type (demo_catalog ''wolf'') = ''Carnivore''
   \<and> snd (can_play_animal demo_catalog control_table (demo_catalog ''wolf''))
   \<and> type (demo_catalog ''bear'') = ''Omnivore''
   \<and> snd (can_play_animal demo_catalog control_table (demo_catalog ''bear''))"
proof -
  have t: "type (demo_catalog ''deer'') = ''Herbivore''" "type (demo_catalog ''moose'') = ''Herbivore''"
    "type (demo_catalog ''wolf'') = ''Carnivore''" "type (demo_catalog ''bear'') = ''Omnivore''"
    "level (demo_catalog ''deer'') = 3" "level (demo_catalog ''moose'') = 6"
    "level (demo_catalog ''wolf'') = 4" "level (demo_catalog ''bear'') = 5"
    "cn (biome control_table) = 4"
    by (simp_all add: demo_catalog_def animal_card_def control_table_def demo_state_def)
  have v: "2 \<in> set (find_viable_prey demo_catalog control_table 4)"
    "2 \<in> set (find_viable_prey demo_catalog control_table 5)"
    by (simp_all add: find_viable_prey_def ceil_half_def control_table_def demo_state_def heap_of_def
          animal_def demo_catalog_def animal_card_def
          upt_rec [of 0] upt_rec [of 1] upt_rec [of 2] upt_rec [of 3] upt_rec [of 4] upt_rec [of 5]
          upt_rec [of 6])
  from animal_card_legality [of demo_catalog control_table 0 "demo_catalog ''deer''"] t
  have 1: "snd (can_play_animal demo_catalog control_table (demo_catalog ''deer''))" by simp
  from animal_card_legality [of demo_catalog control_table 0 "demo_catalog ''moose''"] t
  have 2: "\<not> snd (can_play_animal demo_catalog control_table (demo_catalog ''moose''))" by simp
  from animal_card_legality [of demo_catalog control_table 0 "demo_catalog ''wolf''"] t v
  have 3: "snd (can_play_animal demo_catalog control_table (demo_catalog ''wolf''))" by auto
  from animal_card_legality [of demo_catalog control_table 0 "demo_catalog ''bear''"] t v
  have 4: "snd (can_play_animal demo_catalog control_table (demo_catalog ''bear''))" by auto
  from t 1 2 3 4 show ?thesis by simp
qed

subsection \<open>The terminal state\<close>

text \<open>
  C9. With a winner that is not empty, \<open>end_turn\<close> returns at once and the state is the
  same in every field; \<open>play_card\<close> returns failure, and the state it leaves differs from
  the one before in nothing but the log, which has the entry "the game is already over"
  at its end (the log is the observational record of the calls; no field of the game
  proper is written).
\<close>

theorem game_over_is_terminal:
  assumes "winner st = Some w" and "w \<noteq> []"
  shows "end_turn CARD_INDEX st hunting_choices = Inr st
         \<and> play_card CARD_INDEX st cid = Inr (st\<lparr>log := log st @ [GameAlreadyOver]\<rparr>, False)"
  using assms by (simp add: end_turn_def play_card_def truthy_def add_log_def)

theorem game_over_is_terminal_witness:
  "winner (control_table\<lparr>winner := Some ''Jugador 1''\<rparr>) = Some ''Jugador 1'' \<and> ''Jugador 1'' \<noteq> []
   \<and> end_turn demo_catalog (control_table\<lparr>winner := Some ''Jugador 1''\<rparr>) None
       = Inr (control_table\<lparr>winner := Some ''Jugador 1''\<rparr>)
   \<and> play_card demo_catalog (control_table\<lparr>winner := Some ''Jugador 1''\<rparr>) ''hare''
       = Inr (control_table\<lparr>winner := Some ''Jugador 1'', log := [GameAlreadyOver]\<rparr>, False)"
  using game_over_is_terminal [of "control_table\<lparr>winner := Some ''Jugador 1''\<rparr>" "''Jugador 1''"
          demo_catalog None "''hare''"]
  by (simp add: control_table_def demo_state_def)

subsection \<open>A single hunt\<close>

lemma trunc_div_spec:
  "trunc_div w 10 = spec_truncate (real_of_int w / 10)"
  "trunc_div s 5 = spec_truncate (0.20 * real_of_int s)"
  "trunc_div s 4 = spec_truncate (0.25 * real_of_int s)"
  unfolding trunc_div_def spec_truncate_def by (simp_all; linarith)+

lemma set_hunger_simps [simp]:
  "players (set_hunger st a h) = players st"
  "biome (set_hunger st a h) = biome st"
  "heap (set_hunger st a h) = (heap st)(a := (heap st a)\<lparr>hunger := h\<rparr>)"
  "animals (set_hunger st a h) = animals st"
  "plants (set_hunger st a h) = plants st"
  "active_player_index (set_hunger st a h) = active_player_index st"
  "actions_used (set_hunger st a h) = actions_used st"
  "next_instance_id (set_hunger st a h) = next_instance_id st"
  "winner (set_hunger st a h) = winner st"
  "log (set_hunger st a h) = log st"
  by (simp_all add: set_hunger_def)

lemma hunt_combat_fails:
  assumes "\<not> defense_score (CARD_INDEX (card_id (heap st prey)))
             \<le> attack_score (CARD_INDEX (card_id (heap st predator)))"
  shows "hunt_combat CARD_INDEX st predator prey =
           (add_log st (Resists (card.name (CARD_INDEX (card_id (heap st prey))))
                                (card.name (CARD_INDEX (card_id (heap st predator))))), False)"
  using assms by (simp add: hunt_combat_def Let_def)

lemma hunt_combat_succeeds:
  assumes "defense_score (CARD_INDEX (card_id (heap st prey)))
             \<le> attack_score (CARD_INDEX (card_id (heap st predator)))"
  shows "hunt_combat CARD_INDEX st predator prey =
           (st\<lparr>log := log st @ [Eliminates (card.name (CARD_INDEX (card_id (heap st predator))))
                                          (card.name (CARD_INDEX (card_id (heap st prey))))],
               animals := filter (\<lambda>a. instance_id (heap st a) \<noteq> instance_id (heap st prey))
                            (animals st),
               biome := (biome st)\<lparr>cc := cc (biome st)
                                        + level (CARD_INDEX (card_id (heap st prey)))\<rparr>,
               heap := (heap st)(predator := (heap st predator)
                         \<lparr>hunger := (if level (CARD_INDEX (card_id (heap st prey)))
                                        = level (CARD_INDEX (card_id (heap st predator)))
                                     then 0 else max (hunger (heap st predator) - 1) 0)\<rparr>)\<rparr>,
            True)"
  using assms by (simp add: hunt_combat_def Let_def set_hunger_def add_log_def)

text \<open>
  C4. For a predator and a prey with the cards \<open>pc\<close> and \<open>qc\<close>, the hunt is evaded when
  the predator's instinct is below the prey's and its mobility is below the prey's. The
  scores are those of the specification, with its truncation on real numbers. The hunt
  succeeds iff it is not evaded and the attack score is at least the defense score. On
  success the animals with the prey's instance id leave the table, \<open>cc\<close> grows by the
  prey's level, the predator's hunger becomes 0 for a prey of its own level and
  \<open>max (hunger - 1) 0\<close> otherwise, and nothing else but the log changes. On failure
  (escape or resistance) nothing but the log changes. With the numbers of scenario B the
  scores are 66 and 47, and the hunt succeeds unless evaded.
\<close>

theorem single_hunt_outcome:
  assumes pc: "pc = CARD_INDEX (card_id (heap st predator))"
    and qc: "qc = CARD_INDEX (card_id (heap st prey))"
    and r: "r = resolve_single_hunt CARD_INDEX st predator prey"
    and evaded: "evaded \<longleftrightarrow> instinct pc < instinct qc \<and> mobility pc < mobility qc"
  shows "attack_score pc =
           attack pc + spec_truncate (0.20 * real_of_int
                         (min 100 (spec_truncate (real_of_int (weightKg pc) / 10))))
       \<and> defense_score qc =
           defense qc + spec_truncate (0.25 * real_of_int
                          (min 100 (spec_truncate (real_of_int (weightKg qc) / 10))))
       \<and> (snd r \<longleftrightarrow> \<not> evaded \<and> defense_score qc \<le> attack_score pc)
       \<and> (snd r \<longrightarrow>
            animals (fst r) =
              filter (\<lambda>a. instance_id (heap st a) \<noteq> instance_id (heap st prey)) (animals st)
            \<and> prey \<notin> set (animals (fst r))
            \<and> biome (fst r) = (biome st)\<lparr>cc := cc (biome st) + level qc\<rparr>
            \<and> hunger (heap (fst r) predator) =
                (if level qc = level pc then 0 else max (hunger (heap st predator) - 1) 0)
            \<and> fst r = st\<lparr>log := log (fst r), animals := animals (fst r), biome := biome (fst r),
                          heap := (heap st)(predator := heap (fst r) predator)\<rparr>)
       \<and> (\<not> snd r \<longrightarrow> fst r = st\<lparr>log := log (fst r)\<rparr>)
       \<and> (attack pc = 50 \<and> weightKg pc = 800 \<and> defense qc = 40 \<and> weightKg qc = 300 \<longrightarrow>
            attack_score pc = 66 \<and> defense_score qc = 47 \<and> (\<not> evaded \<longrightarrow> snd r))"
proof -
  have a: "attack_score pc =
           attack pc + spec_truncate (0.20 * real_of_int
                         (min 100 (spec_truncate (real_of_int (weightKg pc) / 10))))"
    by (simp only: attack_score_def weight_scaled_def trunc_div_spec)
  have d: "defense_score qc =
           defense qc + spec_truncate (0.25 * real_of_int
                          (min 100 (spec_truncate (real_of_int (weightKg qc) / 10))))"
    by (simp only: defense_score_def weight_scaled_def trunc_div_spec)
  have s: "snd r \<longleftrightarrow> \<not> evaded \<and> defense_score qc \<le> attack_score pc"
    unfolding r evaded pc qc
    by (auto simp: resolve_single_hunt_def Let_def hunt_combat_def)
  have ok: "animals (fst r) =
              filter (\<lambda>a. instance_id (heap st a) \<noteq> instance_id (heap st prey)) (animals st)
            \<and> prey \<notin> set (animals (fst r))
            \<and> biome (fst r) = (biome st)\<lparr>cc := cc (biome st) + level qc\<rparr>
            \<and> hunger (heap (fst r) predator) =
                (if level qc = level pc then 0 else max (hunger (heap st predator) - 1) 0)
            \<and> fst r = st\<lparr>log := log (fst r), animals := animals (fst r), biome := biome (fst r),
                          heap := (heap st)(predator := heap (fst r) predator)\<rparr>"
    if "snd r"
  proof -
    from that s have ne: "\<not> evaded" and sc: "defense_score qc \<le> attack_score pc" by simp_all
    show ?thesis
    proof (cases "instinct qc \<le> instinct pc")
      case True
      then have "r = hunt_combat CARD_INDEX (add_log st (InstinctFavours (card.name pc))) predator prey"
        unfolding r pc qc by (simp add: resolve_single_hunt_def Let_def)
      with sc show ?thesis unfolding pc qc
        by (simp add: hunt_combat_succeeds add_log_def)
    next
      case False
      with ne have "\<not> mobility pc < mobility qc" by (simp add: evaded)
      with False have "r = hunt_combat CARD_INDEX
          (add_log st (CatchesUp (card.name pc) (card.name qc))) predator prey"
        unfolding r pc qc by (simp add: resolve_single_hunt_def Let_def)
      with sc show ?thesis unfolding pc qc
        by (simp add: hunt_combat_succeeds add_log_def)
    qed
  qed
  have ko: "fst r = st\<lparr>log := log (fst r)\<rparr>" if "\<not> snd r"
    using that unfolding r
    by (auto simp: resolve_single_hunt_def Let_def hunt_combat_def add_log_def split: if_splits)
  have b: "attack_score pc = 66 \<and> defense_score qc = 47 \<and> (\<not> evaded \<longrightarrow> snd r)"
    if "attack pc = 50 \<and> weightKg pc = 800 \<and> defense qc = 40 \<and> weightKg qc = 300"
  proof -
    from that have "attack_score pc = 66" "defense_score qc = 47"
      by (simp_all add: attack_score_def defense_score_def weight_scaled_def trunc_div_def)
    with s show ?thesis by simp
  qed
  from a d s ok ko b show ?thesis by blast
qed

text \<open>Scenario B on a table: the bear (address 0) hunts the deer (address 1).\<close>

theorem single_hunt_outcome_witness:
  "demo_catalog ''bear'' = demo_catalog (card_id (heap bear_and_deer 0))
   \<and> demo_catalog ''deer'' = demo_catalog (card_id (heap bear_and_deer 1))
   \<and> (False \<longleftrightarrow> instinct (demo_catalog ''bear'') < instinct (demo_catalog ''deer'')
                 \<and> mobility (demo_catalog ''bear'') < mobility (demo_catalog ''deer''))
   \<and> attack_score (demo_catalog ''bear'') = 66 \<and> defense_score (demo_catalog ''deer'') = 47
   \<and> snd (resolve_single_hunt demo_catalog bear_and_deer 0 1)
   \<and> animals (fst (resolve_single_hunt demo_catalog bear_and_deer 0 1)) = [0]
   \<and> cc (biome (fst (resolve_single_hunt demo_catalog bear_and_deer 0 1))) = 3
   \<and> hunger (heap (fst (resolve_single_hunt demo_catalog bear_and_deer 0 1)) 0) = 0"
proof -
  have pc: "demo_catalog ''bear'' = demo_catalog (card_id (heap bear_and_deer 0))"
    and qc: "demo_catalog ''deer'' = demo_catalog (card_id (heap bear_and_deer 1))"
    by (simp_all add: bear_and_deer_def demo_state_def heap_of_def animal_def)
  have ev: "False \<longleftrightarrow> instinct (demo_catalog ''bear'') < instinct (demo_catalog ''deer'')
                 \<and> mobility (demo_catalog ''bear'') < mobility (demo_catalog ''deer'')"
    by (simp add: demo_catalog_def animal_card_def)
  have v: "attack (demo_catalog ''bear'') = 50" "weightKg (demo_catalog ''bear'') = 800"
    "defense (demo_catalog ''deer'') = 40" "weightKg (demo_catalog ''deer'') = 300"
    "level (demo_catalog ''bear'') = 5" "level (demo_catalog ''deer'') = 3"
    by (simp_all add: demo_catalog_def animal_card_def)
  have st: "animals bear_and_deer = [0, 1]" "instance_id (heap bear_and_deer 0) = 1"
    "instance_id (heap bear_and_deer 1) = 2" "cc (biome bear_and_deer) = 0"
    "hunger (heap bear_and_deer 0) = 1"
    by (simp_all add: bear_and_deer_def demo_state_def heap_of_def animal_def
          upt_rec [of 0] upt_rec [of 1] upt_rec [of 2])
  from single_hunt_outcome [OF pc qc refl ev] v st pc qc ev show ?thesis
    by simp
qed

subsection \<open>A predator that has left the table still hunts\<close>

text \<open>
  C10. The candidates of \<open>resolve_hunting\<close> are listed once, before the loop. On the
  table of the wolf, the boar and the hare both the wolf (address 0) and the boar
  (address 1) are candidates. The first step of the loop, the wolf's hunt, removes the
  boar from the table and brings \<open>cc\<close> to 2. The loop then still runs the boar's hunt:
  at the end the hare (address 2) is gone as well, \<open>cc\<close> is 3, the log has the entry
  of the boar eliminating the hare, and both instance ids 1 and 2 are recorded as fed.
\<close>

theorem removed_predator_still_hunts:
  "hungry_predators demo_catalog hunt_chain_table = [0, 1]
   \<and> animals hunt_chain_table = [0, 1, 2]
   \<and> animals (fst (hunt_step demo_catalog hunt_chain_choices
                      (add_log hunt_chain_table HuntingPhaseStarts, {}) 0)) = [0, 2]
   \<and> cc (biome (fst (hunt_step demo_catalog hunt_chain_choices
                      (add_log hunt_chain_table HuntingPhaseStarts, {}) 0))) = 2
   \<and> animals (fst (resolve_hunting demo_catalog hunt_chain_table hunt_chain_choices)) = [0]
   \<and> cc (biome (fst (resolve_hunting demo_catalog hunt_chain_table hunt_chain_choices))) = 3
   \<and> log (fst (resolve_hunting demo_catalog hunt_chain_table hunt_chain_choices)) =
       [HuntingPhaseStarts, InstinctFavours ''Wolf'', Eliminates ''Wolf'' ''Boar'',
        InstinctFavours ''Boar'', Eliminates ''Boar'' ''Hare'']
   \<and> snd (resolve_hunting demo_catalog hunt_chain_table hunt_chain_choices) = {1, 2}"
  by (simp add: resolve_hunting_def hunt_chain_table_def hunt_chain_choices_def demo_state_def
        hungry_predators_def heap_of_def animal_def demo_catalog_def animal_card_def hunt_step_def
        add_log_def is_viable_prey_def resolve_single_hunt_def hunt_combat_def attack_score_def
        defense_score_def weight_scaled_def trunc_div_def ceil_half_def set_hunger_def Let_def
        upt_rec [of 0] upt_rec [of 1] upt_rec [of 2] upt_rec [of 3] insert_commute)

subsection \<open>Feeding one level\<close>

lemma inc_hunger_simps [simp]:
  "players (inc_hunger st a) = players st"
  "biome (inc_hunger st a) = biome st"
  "heap (inc_hunger st a) = (heap st)(a := (heap st a)\<lparr>hunger := hunger (heap st a) + 1\<rparr>)"
  "animals (inc_hunger st a) = animals st"
  "plants (inc_hunger st a) = plants st"
  "active_player_index (inc_hunger st a) = active_player_index st"
  "actions_used (inc_hunger st a) = actions_used st"
  "next_instance_id (inc_hunger st a) = next_instance_id st"
  "winner (inc_hunger st a) = winner st"
  "log (inc_hunger st a) = log st"
  by (simp_all add: inc_hunger_def)

lemma foldl_set_hunger_zero:
  "foldl (\<lambda>s a. set_hunger s a 0) st las =
     st\<lparr>heap := (\<lambda>a. if a \<in> set las then (heap st a)\<lparr>hunger := 0\<rparr> else heap st a)\<rparr>"
proof (induction las arbitrary: st)
  case Nil
  show ?case by simp
next
  case (Cons b las)
  have "(\<lambda>a. if a \<in> set las then (heap (set_hunger st b 0) a)\<lparr>hunger := 0\<rparr>
                               else heap (set_hunger st b 0) a)
        = (\<lambda>a. if a \<in> set (b # las) then (heap st a)\<lparr>hunger := 0\<rparr> else heap st a)"
    by (auto simp: fun_eq_iff)
  then show ?case by (simp add: Cons.IH)
qed

lemma foldl_inc_hunger:
  "foldl inc_hunger st las =
     st\<lparr>heap := (\<lambda>a. (heap st a)\<lparr>hunger := hunger (heap st a) + int (count_list las a)\<rparr>)\<rparr>"
proof (induction las arbitrary: st)
  case Nil
  show ?case by simp
next
  case (Cons b las)
  have "(\<lambda>a. (heap (inc_hunger st b) a)
               \<lparr>hunger := hunger (heap (inc_hunger st b) a) + int (count_list las a)\<rparr>)
        = (\<lambda>a. (heap st a)\<lparr>hunger := hunger (heap st a) + int (count_list (b # las) a)\<rparr>)"
    by (auto simp: fun_eq_iff)
  then show ?case by (simp add: Cons.IH)
qed

lemma foldl_inc_hunger_unless:
  "foldl (\<lambda>s a. if instance_id (heap s a) \<noteq> instance_id (heap s w)
                    \<and> instance_id (heap s a) \<noteq> instance_id (heap s l)
                 then inc_hunger s a else s) st las
   = foldl inc_hunger st
       (filter (\<lambda>a. instance_id (heap st a) \<noteq> instance_id (heap st w)
                    \<and> instance_id (heap st a) \<noteq> instance_id (heap st l)) las)"
proof (induction las arbitrary: st)
  case Nil
  show ?case by simp
next
  case (Cons b las)
  have same: "instance_id (heap (inc_hunger st b) a) = instance_id (heap st a)" for a
    by simp
  show ?case by (simp add: Cons.IH same del: inc_hunger_simps)
qed

text \<open>The head of the descending stable sort: the first element of greatest key.\<close>

lemma hd_insort_key:
  "hd (insort_key f x ys) = (if ys = [] \<or> f x \<le> f (hd ys) then x else hd ys)"
  by (cases ys) auto

lemma sort_key_Nil_iff: "sort_key f xs = [] \<longleftrightarrow> xs = []"
  by (metis length_0_conv length_sort)

lemma hd_sorted_reverse:
  assumes "xs \<noteq> []"
  shows "\<exists>i < length xs. hd (sorted_reverse k xs) = xs ! i
           \<and> (\<forall>j < length xs. k (xs ! j) \<le> k (xs ! i))
           \<and> (\<forall>j < i. k (xs ! j) < k (xs ! i))"
  using assms
proof (induction xs)
  case Nil
  then show ?case by simp
next
  case (Cons x xs)
  show ?case
  proof (cases "xs = []")
    case True
    then show ?thesis by (simp add: sorted_reverse_def)
  next
    case False
    with Cons.IH obtain i where i: "i < length xs" "hd (sorted_reverse k xs) = xs ! i"
      "\<forall>j < length xs. k (xs ! j) \<le> k (xs ! i)" "\<forall>j < i. k (xs ! j) < k (xs ! i)"
      by blast
    have hd: "hd (sorted_reverse k (x # xs)) = (if k (xs ! i) \<le> k x then x else xs ! i)"
      using False i(2) by (simp add: sorted_reverse_def hd_insort_key sort_key_Nil_iff)
    show ?thesis
    proof (cases "k (xs ! i) \<le> k x")
      case True
      have "\<forall>j < length (x # xs). k ((x # xs) ! j) \<le> k x"
      proof (intro allI impI)
        fix j assume "j < length (x # xs)"
        then show "k ((x # xs) ! j) \<le> k x"
          using i(3) True by (cases j) (auto intro: order_trans)
      qed
      with hd True show ?thesis by (intro exI [of _ 0]) simp
    next
      case lt: False
      have a: "\<forall>j < length (x # xs). k ((x # xs) ! j) \<le> k (xs ! i)"
      proof (intro allI impI)
        fix j assume "j < length (x # xs)"
        then show "k ((x # xs) ! j) \<le> k (xs ! i)"
          using i(3) lt by (cases j) auto
      qed
      have b: "\<forall>j < Suc i. k ((x # xs) ! j) < k (xs ! i)"
      proof (intro allI impI)
        fix j assume "j < Suc i"
        then show "k ((x # xs) ! j) < k (xs ! i)"
          using i(4) lt by (cases j) auto
      qed
      from hd lt a b i(1) show ?thesis by (intro exI [of _ "Suc i"]) simp
    qed
  qed
qed

lemma sorted_reverse_first_two:
  assumes "distinct xs" and "2 \<le> length xs"
  shows "sorted_reverse k xs ! 0 = hd (sorted_reverse k xs)"
    and "sorted_reverse k xs ! 1 \<in> set xs"
    and "sorted_reverse k xs ! 1 \<noteq> sorted_reverse k xs ! 0"
proof -
  let ?ys = "sorted_reverse k xs"
  have len: "length ?ys = length xs" and set: "set ?ys = set xs" and d: "distinct ?ys"
    using assms(1) by (simp_all add: sorted_reverse_def)
  from assms(2) len have ne: "?ys \<noteq> []" by auto
  then show "?ys ! 0 = hd ?ys" by (simp add: hd_conv_nth)
  from assms(2) len have "1 < length ?ys" by simp
  then show "?ys ! 1 \<in> set xs" using set nth_mem by blast
  from assms(2) len have "1 < length ?ys" and "0 < length ?ys" by linarith+
  with d have "(?ys ! 1 = ?ys ! 0) = (1 = (0::nat))" by (rule nth_eq_iff_index_eq)
  then show "?ys ! 1 \<noteq> ?ys ! 0" by simp
qed

lemma count_list_distinct:
  "distinct xs \<Longrightarrow> count_list xs a = (if a \<in> set xs then 1 else 0)"
  by (induction xs) auto

lemma length_sorted_reverse [simp]: "length (sorted_reverse k xs) = length xs"
  by (simp add: sorted_reverse_def)

lemma feed_level_empty:
  "level_animals CARD_INDEX st lv = [] \<Longrightarrow> feed_level CARD_INDEX st lv = st"
  by (simp add: feed_level_def)

lemma feed_level_all_fed:
  assumes "las = level_animals CARD_INDEX st lv" and "las \<noteq> []"
    and "lv * int (length las) \<le> cn (biome st)"
  shows "feed_level CARD_INDEX st lv =
           st\<lparr>biome := (biome st)\<lparr>cn := cn (biome st) - lv * int (length las)\<rparr>,
               heap := (\<lambda>a. if a \<in> set las then (heap st a)\<lparr>hunger := 0\<rparr> else heap st a),
               log := log st @ [LevelAllFed lv (cn (biome st) - lv * int (length las))]\<rparr>"
  using assms
  by (simp add: feed_level_def Let_def foldl_set_hunger_zero add_log_def cong: if_cong)

lemma feed_level_no_duel:
  assumes "las = level_animals CARD_INDEX st lv" and "las \<noteq> []"
    and "\<not> lv * int (length las) \<le> cn (biome st)"
    and "\<not> (2 \<le> length las \<and> lv \<le> cn (biome st))"
  shows "feed_level CARD_INDEX st lv =
           st\<lparr>heap := (\<lambda>a. (heap st a)\<lparr>hunger := hunger (heap st a) + int (count_list las a)\<rparr>),
               log := log st @ [LevelCnInsufficient lv (cn (biome st)) (length las), NoCnForDuel]\<rparr>"
proof -
  have "feed_level CARD_INDEX st lv =
          add_log (foldl inc_hunger
                     (add_log st (LevelCnInsufficient lv (cn (biome st)) (length las))) las)
            NoCnForDuel"
    using assms by (auto simp add: feed_level_def Let_def)
  then show ?thesis by (simp add: foldl_inc_hunger add_log_def)
qed

lemma feed_level_duel:
  assumes "las = level_animals CARD_INDEX st lv"
    and "\<not> lv * int (length las) \<le> cn (biome st)"
    and "2 \<le> length las" and "lv \<le> cn (biome st)"
    and "dc = sorted_reverse (\<lambda>a. weightKg (CARD_INDEX (card_id (heap st a)))) las"
    and "h4 = (heap st)(dc ! 0 := (heap st (dc ! 0))\<lparr>hunger := 0\<rparr>)"
    and "h5 = h4(dc ! 1 := (h4 (dc ! 1))\<lparr>hunger := hunger (h4 (dc ! 1)) + 1\<rparr>)"
    and "rest = filter (\<lambda>a. instance_id (heap st a) \<noteq> instance_id (heap st (dc ! 0))
                         \<and> instance_id (heap st a) \<noteq> instance_id (heap st (dc ! 1))) las"
  shows "feed_level CARD_INDEX st lv =
           st\<lparr>biome := (biome st)\<lparr>cn := cn (biome st) - lv\<rparr>,
               heap := (\<lambda>a. (h5 a)\<lparr>hunger := hunger (h5 a) + int (count_list rest a)\<rparr>),
               log := log st @ [LevelCnInsufficient lv (cn (biome st)) (length las),
                                Duel (card.name (CARD_INDEX (card_id (heap st (dc ! 0)))))
                                     (card.name (CARD_INDEX (card_id (heap st (dc ! 1)))))]\<rparr>"
proof -
  from assms(3) have ne: "las \<noteq> []" by auto
  define st1 where "st1 = add_log st (LevelCnInsufficient lv (cn (biome st)) (length las))"
  define st4 where "st4 = inc_hunger (set_hunger (st1\<lparr>biome := (biome st1)\<lparr>cn := cn (biome st1) - lv\<rparr>\<rparr>)
                                         (dc ! 0) 0) (dc ! 1)"
  define st5 where "st5 = add_log st4 (Duel (card.name (CARD_INDEX (card_id (heap st4 (dc ! 0)))))
                                             (card.name (CARD_INDEX (card_id (heap st4 (dc ! 1))))))"
  have h: "heap st5 = h5" by (simp add: st5_def st4_def st1_def assms(6,7))
  have ids: "instance_id (h5 a) = instance_id (heap st a)" for a
    by (simp add: assms(6,7))
  have cards: "card_id (h5 a) = card_id (heap st a)" for a
    by (simp add: assms(6,7))
  have "feed_level CARD_INDEX st lv =
          foldl (\<lambda>s animal.
                   if instance_id (heap s animal) \<noteq> instance_id (heap s (dc ! 0))
                      \<and> instance_id (heap s animal) \<noteq> instance_id (heap s (dc ! 1))
                   then inc_hunger s animal else s) st5 las"
    using assms(1,2,3,4) ne
    by (simp add: feed_level_def Let_def st5_def st4_def st1_def assms(5))
  also have "\<dots> = foldl inc_hunger st5 rest"
    by (simp add: foldl_inc_hunger_unless h ids assms(8))
  also have "\<dots> = st5\<lparr>heap := (\<lambda>a. (h5 a)\<lparr>hunger := hunger (h5 a) + int (count_list rest a)\<rparr>)\<rparr>"
    by (simp add: foldl_inc_hunger h)
  also have "\<dots> = st\<lparr>biome := (biome st)\<lparr>cn := cn (biome st) - lv\<rparr>,
               heap := (\<lambda>a. (h5 a)\<lparr>hunger := hunger (h5 a) + int (count_list rest a)\<rparr>),
               log := log st @ [LevelCnInsufficient lv (cn (biome st)) (length las),
                                Duel (card.name (CARD_INDEX (card_id (heap st (dc ! 0)))))
                                     (card.name (CARD_INDEX (card_id (heap st (dc ! 1)))))]\<rparr>"
    using cards
    by (simp add: st5_def st4_def st1_def add_log_def inc_hunger_def set_hunger_def assms(6,7))
  finally show ?thesis .
qed

lemma level_animals_set:
  "set (level_animals CARD_INDEX st lv) =
     {a \<in> set (animals st).
        (type (CARD_INDEX (card_id (heap st a))) = ''Herbivore''
         \<or> type (CARD_INDEX (card_id (heap st a))) = ''Omnivore'')
        \<and> level (CARD_INDEX (card_id (heap st a))) = lv}"
  by (auto simp: level_animals_def)

lemma level_animals_distinct_ids:
  assumes "distinct (map (\<lambda>a. instance_id (heap st a)) (animals st))"
  shows "distinct (level_animals CARD_INDEX st lv)"
    and "inj_on (\<lambda>a. instance_id (heap st a)) (set (level_animals CARD_INDEX st lv))"
proof -
  from assms have "distinct (animals st)"
    and inj: "inj_on (\<lambda>a. instance_id (heap st a)) (set (animals st))"
    by (simp_all add: distinct_map)
  then show "distinct (level_animals CARD_INDEX st lv)"
    by (simp add: level_animals_def)
  have "set (level_animals CARD_INDEX st lv) \<subseteq> set (animals st)"
    by (auto simp: level_animals_def)
  with inj show "inj_on (\<lambda>a. instance_id (heap st a)) (set (level_animals CARD_INDEX st lv))"
    by (rule inj_on_subset)
qed

lemma feed_level_duel_outcome:
  assumes las: "las = level_animals CARD_INDEX st lv"
    and ids: "distinct (map (\<lambda>a. instance_id (heap st a)) (animals st))"
    and short: "\<not> lv * int (length las) \<le> cn (biome st)"
    and two: "2 \<le> length las" and enough: "lv \<le> cn (biome st)"
    and st': "st' = feed_level CARD_INDEX st lv"
  shows "cn (biome st') = cn (biome st) - lv
     \<and> (\<exists>i < length las.
           (\<forall>j < length las. weightKg (CARD_INDEX (card_id (heap st (las ! j))))
                              \<le> weightKg (CARD_INDEX (card_id (heap st (las ! i)))))
         \<and> (\<forall>j < i. weightKg (CARD_INDEX (card_id (heap st (las ! j))))
                       < weightKg (CARD_INDEX (card_id (heap st (las ! i)))))
         \<and> hunger (heap st' (las ! i)) = 0
         \<and> (\<forall>a \<in> set las. a \<noteq> las ! i \<longrightarrow> hunger (heap st' a) = hunger (heap st a) + 1))"
proof -
  define k where "k = (\<lambda>a. weightKg (CARD_INDEX (card_id (heap st a))))"
  define dc where "dc = sorted_reverse k las"
  define h4 where "h4 = (heap st)(dc ! 0 := (heap st (dc ! 0))\<lparr>hunger := 0\<rparr>)"
  define h5 where "h5 = h4(dc ! 1 := (h4 (dc ! 1))\<lparr>hunger := hunger (h4 (dc ! 1)) + 1\<rparr>)"
  define rest where "rest = filter (\<lambda>a. instance_id (heap st a) \<noteq> instance_id (heap st (dc ! 0))
                         \<and> instance_id (heap st a) \<noteq> instance_id (heap st (dc ! 1))) las"
  note eq = feed_level_duel [OF las short two enough dc_def [unfolded k_def] h4_def h5_def rest_def]
  from ids have d: "distinct las"
    and inj: "inj_on (\<lambda>a. instance_id (heap st a)) (set las)"
    unfolding las by (rule level_animals_distinct_ids)+
  from two have ne: "las \<noteq> []" by auto
  from sorted_reverse_first_two [OF d two, of k]
  have w: "dc ! 0 = hd dc" and l: "dc ! 1 \<in> set las" and wl: "dc ! 1 \<noteq> dc ! 0"
    by (simp_all add: dc_def)
  from hd_sorted_reverse [OF ne, of k] obtain i where i: "i < length las" "hd dc = las ! i"
    "\<forall>j < length las. k (las ! j) \<le> k (las ! i)" "\<forall>j < i. k (las ! j) < k (las ! i)"
    unfolding dc_def by blast
  from i(1,2) w have win: "dc ! 0 = las ! i" and wmem: "dc ! 0 \<in> set las" by simp_all
  have rest: "rest = filter (\<lambda>a. a \<noteq> dc ! 0 \<and> a \<noteq> dc ! 1) las"
    unfolding rest_def using inj wmem l
    by (intro filter_cong refl) (auto dest: inj_onD)
  from d have drest: "distinct rest" by (simp add: rest)
  have cnt: "count_list rest a = (if a \<in> set las \<and> a \<noteq> dc ! 0 \<and> a \<noteq> dc ! 1 then 1 else 0)" for a
    using count_list_distinct [OF drest, of a] by (auto simp: rest)
  have hw: "hunger (heap st' (dc ! 0)) = 0"
    unfolding st' eq using wl by (simp add: cnt h5_def h4_def)
  have hl: "hunger (heap st' (dc ! 1)) = hunger (heap st (dc ! 1)) + 1"
    unfolding st' eq using wl by (simp add: cnt h5_def h4_def)
  have ho: "hunger (heap st' a) = hunger (heap st a) + 1"
    if "a \<in> set las" "a \<noteq> dc ! 0" "a \<noteq> dc ! 1" for a
    unfolding st' eq using that by (simp add: cnt h5_def h4_def)
  have others: "\<forall>a \<in> set las. a \<noteq> las ! i \<longrightarrow> hunger (heap st' a) = hunger (heap st a) + 1"
    using hl ho win by metis
  have c: "cn (biome st') = cn (biome st) - lv"
    unfolding st' eq by simp
  from c i(1) i(3,4) [unfolded k_def] hw [unfolded win] others show ?thesis by blast
qed

lemma set_sorted_reverse [simp]: "set (sorted_reverse k xs) = set xs"
  by (simp add: sorted_reverse_def)

lemma feed_level_frame:
  assumes "a \<notin> set (level_animals CARD_INDEX st lv)"
  shows "heap (feed_level CARD_INDEX st lv) a = heap st a"
proof -
  define las where "las = level_animals CARD_INDEX st lv"
  from assms have a: "a \<notin> set las" by (simp add: las_def)
  then have cnt: "count_list las a = 0" by simp
  consider "las = []" | "las \<noteq> []" "lv * int (length las) \<le> cn (biome st)"
    | "\<not> lv * int (length las) \<le> cn (biome st)" "2 \<le> length las" "lv \<le> cn (biome st)"
    | "las \<noteq> []" "\<not> lv * int (length las) \<le> cn (biome st)"
      "\<not> (2 \<le> length las \<and> lv \<le> cn (biome st))"
    by blast
  then show ?thesis
  proof cases
    case 1
    then show ?thesis by (simp add: feed_level_empty las_def)
  next
    case 2
    from feed_level_all_fed [OF las_def 2] a show ?thesis by simp
  next
    case 3
    define dc where "dc = sorted_reverse (\<lambda>a. weightKg (CARD_INDEX (card_id (heap st a)))) las"
    have "length dc = length las" by (simp add: dc_def)
    with 3(2) have "0 < length dc" "1 < length dc" by linarith+
    then have "dc ! 0 \<in> set dc" "dc ! 1 \<in> set dc" by (simp_all only: nth_mem)
    then have m: "dc ! 0 \<in> set las" "dc ! 1 \<in> set las" by (simp_all add: dc_def)
    with a have ne: "a \<noteq> dc ! 0" "a \<noteq> dc ! 1" by auto
    have "count_list (filter P las) a = 0" for P using a by simp
    with feed_level_duel [OF las_def 3 dc_def refl refl refl] ne show ?thesis by simp
  next
    case 4
    from feed_level_no_duel [OF las_def 4] cnt show ?thesis by simp
  qed
qed

text \<open>
  C5. The level loop of the Feeding Resolver runs \<open>feed_level\<close> for the levels
  \<open>1, 2, \<dots>, lmax\<close> in this order. At a level \<open>lv\<close>, with \<open>las\<close> the Herbivore and
  Omnivore instances of that level on the table, \<open>n\<close> their number and \<open>c\<close> the current
  \<open>cn\<close>, on a table where no two instances share an id:
  \<^item> with no such instance nothing happens;
  \<^item> if \<open>lv * n \<le> c\<close> then \<open>cn\<close> drops by \<open>lv * n\<close> and every instance has hunger 0;
  \<^item> else, if \<open>n \<ge> 2\<close> and \<open>lv \<le> c\<close>, then \<open>cn\<close> drops by \<open>lv\<close>, the first instance of
    greatest weight has hunger 0, and every other instance of the level gains 1 hunger;
  \<^item> else \<open>cn\<close> stays and every instance of the level gains 1 hunger;
  \<^item> no other animal object is touched.
  With two instances \<open>a\<close>, \<open>b\<close> at level 3 and \<open>cn = 3\<close>: \<open>cn\<close> drops to 0, the heavier
  one (the first one for equal weights) has hunger 0 and the other gains 1.
\<close>

theorem feeding_by_level:
  assumes las: "las = level_animals CARD_INDEX st lv"
    and ids: "distinct (map (\<lambda>a. instance_id (heap st a)) (animals st))"
    and st': "st' = feed_level CARD_INDEX st lv"
    and n: "n = int (length las)" and c: "c = cn (biome st)"
    and w: "\<And>a. w a = weightKg (CARD_INDEX (card_id (heap st a)))"
  shows "feed_levels CARD_INDEX st = foldl (feed_level CARD_INDEX) st [1 .. lmax (biome st)]
     \<and> set las = {a \<in> set (animals st).
          (type (CARD_INDEX (card_id (heap st a))) = ''Herbivore''
           \<or> type (CARD_INDEX (card_id (heap st a))) = ''Omnivore'')
          \<and> level (CARD_INDEX (card_id (heap st a))) = lv}
     \<and> (las = [] \<longrightarrow> st' = st)
     \<and> (las \<noteq> [] \<and> lv * n \<le> c \<longrightarrow>
           cn (biome st') = c - lv * n \<and> (\<forall>a \<in> set las. hunger (heap st' a) = 0))
     \<and> (las \<noteq> [] \<and> \<not> lv * n \<le> c \<and> 2 \<le> n \<and> lv \<le> c \<longrightarrow>
           cn (biome st') = c - lv
           \<and> (\<exists>i < length las.
                 (\<forall>j < length las. w (las ! j) \<le> w (las ! i))
               \<and> (\<forall>j < i. w (las ! j) < w (las ! i))
               \<and> hunger (heap st' (las ! i)) = 0
               \<and> (\<forall>a \<in> set las. a \<noteq> las ! i \<longrightarrow>
                     hunger (heap st' a) = hunger (heap st a) + 1)))
     \<and> (las \<noteq> [] \<and> \<not> lv * n \<le> c \<and> \<not> (2 \<le> n \<and> lv \<le> c) \<longrightarrow>
           cn (biome st') = c
           \<and> (\<forall>a \<in> set las. hunger (heap st' a) = hunger (heap st a) + 1))
     \<and> (\<forall>a. a \<notin> set las \<longrightarrow> heap st' a = heap st a)
     \<and> (las = [a, b] \<and> lv = 3 \<and> c = 3 \<longrightarrow>
           cn (biome st') = 0
           \<and> (w b \<le> w a \<longrightarrow> hunger (heap st' a) = 0
                               \<and> hunger (heap st' b) = hunger (heap st b) + 1)
           \<and> (w a < w b \<longrightarrow> hunger (heap st' b) = 0
                               \<and> hunger (heap st' a) = hunger (heap st a) + 1))"
proof -
  from ids have d: "distinct las" unfolding las by (rule level_animals_distinct_ids)
  have loop: "feed_levels CARD_INDEX st = foldl (feed_level CARD_INDEX) st [1 .. lmax (biome st)]"
    by (simp add: feed_levels_def)
  have members: "set las = {a \<in> set (animals st).
          (type (CARD_INDEX (card_id (heap st a))) = ''Herbivore''
           \<or> type (CARD_INDEX (card_id (heap st a))) = ''Omnivore'')
          \<and> level (CARD_INDEX (card_id (heap st a))) = lv}"
    unfolding las by (rule level_animals_set)
  have none: "st' = st" if "las = []"
    using that unfolding st' las by (simp add: feed_level_empty)
  have all_fed: "cn (biome st') = c - lv * n \<and> (\<forall>a \<in> set las. hunger (heap st' a) = 0)"
    if "las \<noteq> [] \<and> lv * n \<le> c"
  proof -
    from that have "las \<noteq> []" "lv * int (length las) \<le> cn (biome st)" by (simp_all add: n c)
    from feed_level_all_fed [OF las this] show ?thesis by (simp add: st' n c)
  qed
  have duel: "cn (biome st') = c - lv
           \<and> (\<exists>i < length las.
                 (\<forall>j < length las. w (las ! j) \<le> w (las ! i))
               \<and> (\<forall>j < i. w (las ! j) < w (las ! i))
               \<and> hunger (heap st' (las ! i)) = 0
               \<and> (\<forall>a \<in> set las. a \<noteq> las ! i \<longrightarrow>
                     hunger (heap st' a) = hunger (heap st a) + 1))"
    if "las \<noteq> [] \<and> \<not> lv * n \<le> c \<and> 2 \<le> n \<and> lv \<le> c"
  proof -
    from that have "\<not> lv * int (length las) \<le> cn (biome st)" "2 \<le> length las"
      "lv \<le> cn (biome st)"
      by (simp_all add: n c)
    from feed_level_duel_outcome [OF las ids this st'] show ?thesis by (simp add: w c)
  qed
  have no_duel: "cn (biome st') = c
           \<and> (\<forall>a \<in> set las. hunger (heap st' a) = hunger (heap st a) + 1)"
    if "las \<noteq> [] \<and> \<not> lv * n \<le> c \<and> \<not> (2 \<le> n \<and> lv \<le> c)"
  proof -
    from that have "las \<noteq> []" "\<not> lv * int (length las) \<le> cn (biome st)"
      "\<not> (2 \<le> length las \<and> lv \<le> cn (biome st))"
      by (simp_all add: n c)
    from feed_level_no_duel [OF las this] show ?thesis
      by (simp add: st' c count_list_distinct [OF d])
  qed
  have frame: "\<forall>a. a \<notin> set las \<longrightarrow> heap st' a = heap st a"
    unfolding st' las by (simp add: feed_level_frame)
  have scenario: "cn (biome st') = 0
           \<and> (w b \<le> w a \<longrightarrow> hunger (heap st' a) = 0
                               \<and> hunger (heap st' b) = hunger (heap st b) + 1)
           \<and> (w a < w b \<longrightarrow> hunger (heap st' b) = 0
                               \<and> hunger (heap st' a) = hunger (heap st a) + 1)"
    if ab: "las = [a, b] \<and> lv = 3 \<and> c = 3"
  proof -
    from ab have "las \<noteq> [] \<and> \<not> lv * n \<le> c \<and> 2 \<le> n \<and> lv \<le> c" by (simp add: n)
    from duel [OF this] obtain i where i: "i < length las"
      "\<forall>j < length las. w (las ! j) \<le> w (las ! i)"
      "\<forall>j < i. w (las ! j) < w (las ! i)" "hunger (heap st' (las ! i)) = 0"
      "\<forall>x \<in> set las. x \<noteq> las ! i \<longrightarrow> hunger (heap st' x) = hunger (heap st x) + 1"
      and cn': "cn (biome st') = c - lv"
      by blast
    from cn' ab have cn0: "cn (biome st') = 0" by simp
    from d ab have neq: "a \<noteq> b" by simp
    from ab have l2: "length las = 2" "las ! 0 = a" "las ! 1 = b" "set las = {a, b}" by simp_all
    from i(1) l2(1) consider "i = 0" | "i = 1" by linarith
    then show ?thesis
    proof cases
      case 1
      from i(2) l2(1) have "w (las ! 1) \<le> w (las ! i)" by simp
      with 1 l2 have "w b \<le> w a" by simp
      moreover from i(4) 1 l2 have "hunger (heap st' a) = 0" by simp
      moreover from i(5) 1 l2 neq have "hunger (heap st' b) = hunger (heap st b) + 1" by simp
      ultimately show ?thesis using cn0 by simp
    next
      case 2
      from i(3) 2 have "w (las ! 0) < w (las ! i)" by simp
      with 2 l2 have "w a < w b" by simp
      moreover from i(4) 2 l2 have "hunger (heap st' b) = 0" by simp
      moreover from i(5) 2 l2 neq have "hunger (heap st' a) = hunger (heap st a) + 1" by simp
      ultimately show ?thesis using cn0 by simp
    qed
  qed
  from loop members none all_fed duel no_duel frame scenario show ?thesis by blast
qed

text \<open>
  Scenario C on a table: the deer (address 0, 300 kg) and the elk (address 1, 500 kg)
  at level 3 with \<open>cn = 3\<close>.
\<close>

theorem feeding_by_level_witness:
  "level_animals demo_catalog two_grazers_table 3 = [0, 1]
   \<and> distinct (map (\<lambda>a. instance_id (heap two_grazers_table a)) (animals two_grazers_table))
   \<and> cn (biome two_grazers_table) = 3
   \<and> weightKg (demo_catalog (card_id (heap two_grazers_table 0)))
       < weightKg (demo_catalog (card_id (heap two_grazers_table 1)))
   \<and> hunger (heap two_grazers_table 0) = 0
   \<and> cn (biome (feed_level demo_catalog two_grazers_table 3)) = 0
   \<and> hunger (heap (feed_level demo_catalog two_grazers_table 3) 1) = 0
   \<and> hunger (heap (feed_level demo_catalog two_grazers_table 3) 0) = 1"
proof -
  have las: "[0, 1] = level_animals demo_catalog two_grazers_table 3"
    by (simp add: level_animals_def two_grazers_table_def demo_state_def heap_of_def animal_def
          demo_catalog_def animal_card_def upt_rec [of 0] upt_rec [of 1] upt_rec [of 2]
          upt_rec [of 3])
  have ids: "distinct (map (\<lambda>a. instance_id (heap two_grazers_table a)) (animals two_grazers_table))"
    by (simp add: two_grazers_table_def demo_state_def heap_of_def animal_def
          upt_rec [of 0] upt_rec [of 1] upt_rec [of 2] upt_rec [of 3])
  have c: "3 = cn (biome two_grazers_table)"
    by (simp add: two_grazers_table_def demo_state_def)
  have w: "weightKg (demo_catalog (card_id (heap two_grazers_table 0)))
            < weightKg (demo_catalog (card_id (heap two_grazers_table 1)))"
    and h: "hunger (heap two_grazers_table 0) = 0"
    by (simp_all add: two_grazers_table_def demo_state_def heap_of_def animal_def
          demo_catalog_def animal_card_def)
  have n: "(2::int) = int (length [0::nat, 1])" by simp
  from feeding_by_level [OF las ids refl n c refl, of 0 1] w h las [symmetric] ids c [symmetric]
  show ?thesis by simp
qed

subsection \<open>What the resolvers leave alone\<close>

lemma ex_filter_self [simp]: "\<exists>P. xs = filter P xs"
  by (rule exI [of _ "\<lambda>_. True"]) simp

lemma same_game_refl [simp]: "same_game st st"
  by (simp add: same_game_def)

lemma same_game_trans:
  assumes "same_game st st'" and "same_game st' st''"
  shows "same_game st st''"
proof -
  from assms obtain P Q where "animals st' = filter P (animals st)"
    "animals st'' = filter Q (animals st')"
    unfolding same_game_def by blast
  then have "animals st'' = filter (\<lambda>a. P a \<and> Q a) (animals st)" by simp
  then have "\<exists>R. animals st'' = filter R (animals st)" by blast
  with assms show ?thesis unfolding same_game_def by simp
qed

lemma same_game_foldl:
  assumes "\<And>s x. same_game s (f s x)"
  shows "same_game st (foldl f st xs)"
proof (induction xs arbitrary: st)
  case Nil
  show ?case by simp
next
  case (Cons x xs)
  from assms [of st x] Cons [of "f st x"] show ?case
    by (simp add: same_game_trans)
qed

lemma same_game_add_log [simp]: "same_game st (add_log st m)"
  using same_game_refl [of st] unfolding same_game_def by simp

lemma same_game_set_hunger [simp]: "same_game st (set_hunger st a h)"
  using same_game_refl [of st] unfolding same_game_def by simp

lemma same_game_inc_hunger [simp]: "same_game st (inc_hunger st a)"
  by (simp add: inc_hunger_def)

lemma same_game_hunt_combat: "same_game st (fst (hunt_combat CARD_INDEX st predator prey))"
proof (cases "defense_score (CARD_INDEX (card_id (heap st prey)))
             \<le> attack_score (CARD_INDEX (card_id (heap st predator)))")
  case True
  have "\<exists>P. filter (\<lambda>a. instance_id (heap st a) \<noteq> instance_id (heap st prey)) (animals st)
             = filter P (animals st)"
    by blast
  with True show ?thesis
    by (simp add: hunt_combat_succeeds same_game_def)
next
  case False
  then show ?thesis by (simp add: hunt_combat_fails)
qed

lemma same_game_single_hunt:
  "same_game st (fst (resolve_single_hunt CARD_INDEX st predator prey))"
proof -
  have "same_game (add_log st m) (fst (hunt_combat CARD_INDEX (add_log st m) predator prey))" for m
    by (rule same_game_hunt_combat)
  then have "same_game st (fst (hunt_combat CARD_INDEX (add_log st m) predator prey))" for m
    using same_game_add_log same_game_trans by blast
  then show ?thesis by (simp add: resolve_single_hunt_def Let_def)
qed

lemma same_game_hunt_step:
  "same_game (fst sf) (fst (hunt_step CARD_INDEX hunting_choices sf predator))"
  by (simp add: hunt_step_def Let_def same_game_single_hunt split: option.splits)

lemma same_game_hunt_loop:
  "same_game (fst sf) (fst (foldl (hunt_step CARD_INDEX hunting_choices) sf predators))"
proof (induction predators arbitrary: sf)
  case Nil
  show ?case by simp
next
  case (Cons p predators)
  from same_game_hunt_step [of sf CARD_INDEX hunting_choices p]
    Cons [of "hunt_step CARD_INDEX hunting_choices sf p"]
  show ?case by (simp add: same_game_trans)
qed

lemma same_game_hunting:
  "same_game st (fst (resolve_hunting CARD_INDEX st hunting_choices))"
proof (cases "hungry_predators CARD_INDEX st = []")
  case True
  then show ?thesis by (simp add: resolve_hunting_def)
next
  case False
  from same_game_hunt_loop [of "(add_log st HuntingPhaseStarts, {})" CARD_INDEX hunting_choices]
  have "same_game (add_log st HuntingPhaseStarts)
          (fst (foldl (hunt_step CARD_INDEX hunting_choices) (add_log st HuntingPhaseStarts, {})
                  (hungry_predators CARD_INDEX st)))"
    by simp
  then have "same_game st
          (fst (foldl (hunt_step CARD_INDEX hunting_choices) (add_log st HuntingPhaseStarts, {})
                  (hungry_predators CARD_INDEX st)))"
    by (rule same_game_trans [OF same_game_add_log])
  with False show ?thesis by (simp add: resolve_hunting_def Let_def)
qed

lemma same_game_feed_level: "same_game st (feed_level CARD_INDEX st lv)"
proof -
  define las where "las = level_animals CARD_INDEX st lv"
  consider "las = []" | "las \<noteq> []" "lv * int (length las) \<le> cn (biome st)"
    | "\<not> lv * int (length las) \<le> cn (biome st)" "2 \<le> length las" "lv \<le> cn (biome st)"
    | "las \<noteq> []" "\<not> lv * int (length las) \<le> cn (biome st)"
      "\<not> (2 \<le> length las \<and> lv \<le> cn (biome st))"
    by blast
  then show ?thesis
  proof cases
    case 1
    then show ?thesis by (simp add: feed_level_empty las_def)
  next
    case 2
    from feed_level_all_fed [OF las_def 2] same_game_refl [of st] show ?thesis
      by (simp add: same_game_def)
  next
    case 3
    from feed_level_duel [OF las_def 3 refl refl refl refl] same_game_refl [of st] show ?thesis
      by (simp add: same_game_def)
  next
    case 4
    from feed_level_no_duel [OF las_def 4] same_game_refl [of st] show ?thesis
      by (simp add: same_game_def)
  qed
qed

lemma same_game_feed_levels: "same_game st (feed_levels CARD_INDEX st)"
  unfolding feed_levels_def by (rule same_game_foldl) (rule same_game_feed_level)

lemma same_game_feeding: "same_game st (resolve_feeding CARD_INDEX st fed_predators)"
proof -
  define st1 where "st1 = feed_levels CARD_INDEX (add_log st FeedingPhaseStarts)"
  have 1: "same_game st st1"
    unfolding st1_def using same_game_add_log same_game_feed_levels by (rule same_game_trans)
  have "same_game st1 (foldl inc_hunger st1 xs)" for xs
    by (rule same_game_foldl) simp
  then have "same_game st1 (add_log (foldl inc_hunger st1 xs) m)" for xs m
    using same_game_add_log same_game_trans by blast
  with 1 have "same_game st (add_log (foldl inc_hunger st1 xs) m)" for xs m
    using same_game_trans by blast
  with 1 show ?thesis by (simp add: resolve_feeding_def Let_def st1_def)
qed

lemma same_game_filter:
  assumes "same_game st st'"
  shows "same_game st (st'\<lparr>animals := filter P (animals st')\<rparr>)"
proof -
  have "same_game st' (st'\<lparr>animals := filter P (animals st')\<rparr>)"
    unfolding same_game_def by auto
  with assms show ?thesis by (rule same_game_trans)
qed

lemma same_game_starvation: "same_game st (resolve_starvation CARD_INDEX st)"
proof -
  let ?die = "\<lambda>s animal. let c = CARD_INDEX (card_id (heap s animal))
                          in add_log (s\<lparr>biome := (biome s)\<lparr>cc := cc (biome s) + level c\<rparr>\<rparr>)
                               (DiesOfHunger (card.name c))"
  have step: "same_game s (?die s x)" for s x
    using same_game_refl [of s] by (simp add: same_game_def Let_def)
  have "same_game st (foldl ?die st dead)" for dead
    by (rule same_game_foldl) (rule step)
  then have "same_game st ((foldl ?die st dead)\<lparr>animals := filter P (animals (foldl ?die st dead))\<rparr>)"
    for dead P
    by (rule same_game_filter)
  then show ?thesis by (simp add: resolve_starvation_def Let_def)
qed

lemma same_game_conversion: "same_game st (resolve_conversion st)"
  using same_game_refl [of st] by (simp add: resolve_conversion_def Let_def same_game_def)

subsection \<open>The food pool is never negative\<close>

lemma sound_same_game:
  assumes "sound CARD_INDEX st" and "same_game st st'"
    and "0 \<le> cn (biome st')" and "0 \<le> cc (biome st')" and "0 \<le> cn_temp (biome st')"
  shows "sound CARD_INDEX st'"
proof -
  from assms(2) obtain P where P: "animals st' = filter P (animals st)"
    and cards: "\<And>a. card_id (heap st' a) = card_id (heap st a)"
    and rest: "plants st' = plants st" "cn_base (biome st') = cn_base (biome st)"
    unfolding same_game_def by blast
  from assms(1) P cards have "\<forall>a \<in> set (animals st'). kind (CARD_INDEX (card_id (heap st' a))) = ''animal''"
    by (simp add: sound_def)
  with assms(1,3,4,5) rest show ?thesis by (simp add: sound_def)
qed

lemma sound_level:
  assumes "catalog_ok CARD_INDEX" and "sound CARD_INDEX st" and "a \<in> set (animals st)"
  shows "0 \<le> level (CARD_INDEX (card_id (heap st a)))"
  using assms by (simp add: catalog_ok_def sound_def)

lemma hunt_combat_biome:
  "biome (fst (hunt_combat CARD_INDEX st predator prey)) = biome st
   \<or> biome (fst (hunt_combat CARD_INDEX st predator prey))
       = (biome st)\<lparr>cc := cc (biome st) + level (CARD_INDEX (card_id (heap st prey)))\<rparr>"
  by (simp add: hunt_combat_def Let_def)

lemma single_hunt_biome:
  "biome (fst (resolve_single_hunt CARD_INDEX st predator prey)) = biome st
   \<or> biome (fst (resolve_single_hunt CARD_INDEX st predator prey))
       = (biome st)\<lparr>cc := cc (biome st) + level (CARD_INDEX (card_id (heap st prey)))\<rparr>"
proof -
  have "biome (fst (hunt_combat CARD_INDEX (add_log st m) predator prey)) = biome st
   \<or> biome (fst (hunt_combat CARD_INDEX (add_log st m) predator prey))
       = (biome st)\<lparr>cc := cc (biome st) + level (CARD_INDEX (card_id (heap st prey)))\<rparr>" for m
    using hunt_combat_biome [of CARD_INDEX "add_log st m" predator prey] by simp
  then show ?thesis by (simp add: resolve_single_hunt_def Let_def)
qed

lemma hunt_step_biome:
  "biome (fst (hunt_step CARD_INDEX hunting_choices sf predator)) = biome (fst sf)
   \<or> (\<exists>prey \<in> set (animals (fst sf)).
         biome (fst (hunt_step CARD_INDEX hunting_choices sf predator))
           = (biome (fst sf))\<lparr>cc := cc (biome (fst sf))
                 + level (CARD_INDEX (card_id (heap (fst sf) prey)))\<rparr>)"
proof -
  have "biome (fst (resolve_single_hunt CARD_INDEX (fst sf) predator prey)) = biome (fst sf)
   \<or> (\<exists>q \<in> set (animals (fst sf)).
         biome (fst (resolve_single_hunt CARD_INDEX (fst sf) predator prey))
           = (biome (fst sf))\<lparr>cc := cc (biome (fst sf))
                 + level (CARD_INDEX (card_id (heap (fst sf) q)))\<rparr>)"
    if "find Q (animals (fst sf)) = Some prey" for Q prey
  proof -
    from that have "prey \<in> set (animals (fst sf))"
      by (auto simp: find_Some_iff)
    with single_hunt_biome [of CARD_INDEX "fst sf" predator prey] show ?thesis by blast
  qed
  then show ?thesis
    by (simp add: hunt_step_def Let_def split: option.splits)
qed

lemma sound_hunt_step:
  assumes "catalog_ok CARD_INDEX" and "sound CARD_INDEX (fst sf)"
  shows "sound CARD_INDEX (fst (hunt_step CARD_INDEX hunting_choices sf predator))"
proof -
  let ?st' = "fst (hunt_step CARD_INDEX hunting_choices sf predator)"
  from hunt_step_biome [of CARD_INDEX hunting_choices sf predator]
  have "0 \<le> cn (biome ?st') \<and> 0 \<le> cc (biome ?st') \<and> 0 \<le> cn_temp (biome ?st')"
  proof
    assume "biome ?st' = biome (fst sf)"
    with assms(2) show ?thesis by (simp add: sound_def)
  next
    assume "\<exists>prey \<in> set (animals (fst sf)).
         biome ?st' = (biome (fst sf))\<lparr>cc := cc (biome (fst sf))
                 + level (CARD_INDEX (card_id (heap (fst sf) prey)))\<rparr>"
    then obtain prey where "prey \<in> set (animals (fst sf))"
      and b: "biome ?st' = (biome (fst sf))\<lparr>cc := cc (biome (fst sf))
                 + level (CARD_INDEX (card_id (heap (fst sf) prey)))\<rparr>"
      by blast
    with assms have "0 \<le> level (CARD_INDEX (card_id (heap (fst sf) prey)))"
      by (simp add: sound_level)
    with assms(2) b show ?thesis by (simp add: sound_def)
  qed
  with assms(2) same_game_hunt_step [of sf CARD_INDEX hunting_choices predator]
  show ?thesis by (simp add: sound_same_game)
qed

lemma sound_hunt_loop:
  assumes "catalog_ok CARD_INDEX" and "sound CARD_INDEX (fst sf)"
  shows "sound CARD_INDEX (fst (foldl (hunt_step CARD_INDEX hunting_choices) sf predators))"
  using assms(2)
proof (induction predators arbitrary: sf)
  case Nil
  then show ?case by simp
next
  case (Cons p predators)
  from sound_hunt_step [OF assms(1) Cons.prems] have "sound CARD_INDEX (fst (hunt_step CARD_INDEX hunting_choices sf p))" .
  then show ?case by (simp add: Cons.IH)
qed

lemma sound_add_log [simp]: "sound CARD_INDEX (add_log st m) = sound CARD_INDEX st"
  by (simp add: sound_def)

lemma sound_hunting:
  assumes "catalog_ok CARD_INDEX" and "sound CARD_INDEX st"
  shows "sound CARD_INDEX (fst (resolve_hunting CARD_INDEX st hunting_choices))"
proof (cases "hungry_predators CARD_INDEX st = []")
  case True
  with assms(2) show ?thesis by (simp add: resolve_hunting_def)
next
  case False
  from assms(2) have "sound CARD_INDEX (fst (add_log st HuntingPhaseStarts, {}::int set))" by simp
  from sound_hunt_loop [OF assms(1) this] False show ?thesis
    by (simp add: resolve_hunting_def Let_def)
qed

lemma feed_level_biome:
  "\<exists>c. biome (feed_level CARD_INDEX st lv) = (biome st)\<lparr>cn := c\<rparr>
       \<and> (0 \<le> cn (biome st) \<longrightarrow> 0 \<le> c)"
proof -
  define las where "las = level_animals CARD_INDEX st lv"
  consider "las = []" | "las \<noteq> []" "lv * int (length las) \<le> cn (biome st)"
    | "\<not> lv * int (length las) \<le> cn (biome st)" "2 \<le> length las" "lv \<le> cn (biome st)"
    | "las \<noteq> []" "\<not> lv * int (length las) \<le> cn (biome st)"
      "\<not> (2 \<le> length las \<and> lv \<le> cn (biome st))"
    by blast
  then show ?thesis
  proof cases
    case 1
    then have "biome (feed_level CARD_INDEX st lv) = (biome st)\<lparr>cn := cn (biome st)\<rparr>"
      by (simp add: feed_level_empty las_def)
    then show ?thesis by blast
  next
    case 2
    from feed_level_all_fed [OF las_def 2]
    have "biome (feed_level CARD_INDEX st lv)
            = (biome st)\<lparr>cn := cn (biome st) - lv * int (length las)\<rparr>"
      by simp
    with 2(2) show ?thesis by (intro exI [of _ "cn (biome st) - lv * int (length las)"]) simp
  next
    case 3
    from feed_level_duel [OF las_def 3 refl refl refl refl]
    have "biome (feed_level CARD_INDEX st lv) = (biome st)\<lparr>cn := cn (biome st) - lv\<rparr>"
      by simp
    with 3(3) show ?thesis by (intro exI [of _ "cn (biome st) - lv"]) simp
  next
    case 4
    from feed_level_no_duel [OF las_def 4]
    have "biome (feed_level CARD_INDEX st lv) = (biome st)\<lparr>cn := cn (biome st)\<rparr>"
      by simp
    then show ?thesis by blast
  qed
qed

lemma feed_loop_biome:
  "\<exists>c. biome (foldl (feed_level CARD_INDEX) st lvs) = (biome st)\<lparr>cn := c\<rparr>
       \<and> (0 \<le> cn (biome st) \<longrightarrow> 0 \<le> c)"
proof (induction lvs arbitrary: st)
  case Nil
  show ?case by (intro exI [of _ "cn (biome st)"]) simp
next
  case (Cons lv lvs)
  from feed_level_biome [of CARD_INDEX st lv] obtain c
    where c: "biome (feed_level CARD_INDEX st lv) = (biome st)\<lparr>cn := c\<rparr>"
      "0 \<le> cn (biome st) \<longrightarrow> 0 \<le> c"
    by blast
  from Cons [of "feed_level CARD_INDEX st lv"] obtain c'
    where c': "biome (foldl (feed_level CARD_INDEX) (feed_level CARD_INDEX st lv) lvs)
                 = (biome (feed_level CARD_INDEX st lv))\<lparr>cn := c'\<rparr>"
      "0 \<le> cn (biome (feed_level CARD_INDEX st lv)) \<longrightarrow> 0 \<le> c'"
    by blast
  from c c' have "biome (foldl (feed_level CARD_INDEX) st (lv # lvs)) = (biome st)\<lparr>cn := c'\<rparr>"
    "0 \<le> cn (biome st) \<longrightarrow> 0 \<le> c'"
    by simp_all
  then show ?case by blast
qed

lemma feeding_biome:
  "\<exists>c. biome (resolve_feeding CARD_INDEX st fed_predators) = (biome st)\<lparr>cn := c\<rparr>
       \<and> (0 \<le> cn (biome st) \<longrightarrow> 0 \<le> c)"
proof -
  from feed_loop_biome [of CARD_INDEX "add_log st FeedingPhaseStarts"]
  obtain c where c: "biome (feed_levels CARD_INDEX (add_log st FeedingPhaseStarts))
                       = (biome st)\<lparr>cn := c\<rparr>" "0 \<le> cn (biome st) \<longrightarrow> 0 \<le> c"
    by (auto simp: feed_levels_def)
  have "biome (resolve_feeding CARD_INDEX st fed_predators)
          = biome (feed_levels CARD_INDEX (add_log st FeedingPhaseStarts))"
    by (simp add: resolve_feeding_def Let_def foldl_inc_hunger)
  with c show ?thesis by auto
qed

lemma sound_feeding:
  assumes "sound CARD_INDEX st"
  shows "sound CARD_INDEX (resolve_feeding CARD_INDEX st fed_predators)"
proof -
  from feeding_biome [of CARD_INDEX st fed_predators] obtain c
    where "biome (resolve_feeding CARD_INDEX st fed_predators) = (biome st)\<lparr>cn := c\<rparr>"
      "0 \<le> cn (biome st) \<longrightarrow> 0 \<le> c"
    by blast
  with assms have "0 \<le> cn (biome (resolve_feeding CARD_INDEX st fed_predators))"
    "0 \<le> cc (biome (resolve_feeding CARD_INDEX st fed_predators))"
    "0 \<le> cn_temp (biome (resolve_feeding CARD_INDEX st fed_predators))"
    by (simp_all add: sound_def)
  with assms same_game_feeding show ?thesis by (rule sound_same_game)
qed

subsection \<open>The action budget\<close>

lemma same_game_resolution:
  "same_game st (end_turn_resolution CARD_INDEX st hunting_choices)"
proof -
  define choices where "choices = (case hunting_choices of None \<Rightarrow> Map.empty | Some m \<Rightarrow> m)"
  define hunted where "hunted = resolve_hunting CARD_INDEX st choices"
  define st1 where "st1 = resolve_feeding CARD_INDEX (fst hunted) (snd hunted)"
  define st2 where "st2 = resolve_starvation CARD_INDEX st1"
  have 1: "same_game st (fst hunted)" unfolding hunted_def by (rule same_game_hunting)
  have 2: "same_game (fst hunted) st1" unfolding st1_def by (rule same_game_feeding)
  have 3: "same_game st1 st2" unfolding st2_def by (rule same_game_starvation)
  have 4: "same_game st2 (resolve_conversion st2)" by (rule same_game_conversion)
  from same_game_trans [OF same_game_trans [OF same_game_trans [OF 1 2] 3] 4] show ?thesis
    by (simp add: end_turn_resolution_def Let_def choices_def hunted_def st1_def st2_def)
qed

lemma end_turn_unfold:
  "end_turn CARD_INDEX st hunting_choices =
     (if truthy (winner st) then Inr st
      else
        let st3 = end_turn_resolution CARD_INDEX st hunting_choices
        in case py_index (players st3) (active_player_index st3) of
             None \<Rightarrow> Inl IndexError
           | Some k \<Rightarrow>
               let st4 = (if check_control CARD_INDEX st3 (active_player_index st3)
                          then add_log (set_pending_control st3 k True)
                                 (ControlThreat (PlayerState.name (players st3 ! k)))
                          else set_pending_control st3 k False)
               in start_turn CARD_INDEX
                    (st4\<lparr>active_player_index :=
                           (active_player_index st4 + 1) mod int (length (players st4))\<rparr>))"
  by (simp add: end_turn_def end_turn_resolution_def Let_def split: option.splits)

lemma set_pending_control_simps [simp]:
  "biome (set_pending_control st k b) = biome st"
  "heap (set_pending_control st k b) = heap st"
  "animals (set_pending_control st k b) = animals st"
  "plants (set_pending_control st k b) = plants st"
  "active_player_index (set_pending_control st k b) = active_player_index st"
  "actions_used (set_pending_control st k b) = actions_used st"
  "next_instance_id (set_pending_control st k b) = next_instance_id st"
  "winner (set_pending_control st k b) = winner st"
  "log (set_pending_control st k b) = log st"
  "length (players (set_pending_control st k b)) = length (players st)"
  by (simp_all add: set_pending_control_def)

lemma start_turn_actions:
  assumes "start_turn CARD_INDEX st = Inr st'"
  shows "actions_used st' = 0 \<or> actions_used st' = actions_used st"
  using assms by (auto simp: start_turn_def Let_def split: option.splits if_splits)

lemma end_turn_actions:
  assumes "end_turn CARD_INDEX st hunting_choices = Inr st'"
  shows "actions_used st' = 0 \<or> actions_used st' = actions_used st"
proof (cases "truthy (winner st)")
  case True
  with assms show ?thesis by (simp add: end_turn_unfold)
next
  case False
  define st3 where "st3 = end_turn_resolution CARD_INDEX st hunting_choices"
  have "same_game st st3" unfolding st3_def by (rule same_game_resolution)
  then have a: "actions_used st3 = actions_used st" by (simp add: same_game_def)
  from assms False obtain k where k: "py_index (players st3) (active_player_index st3) = Some k"
    by (cases "py_index (players st3) (active_player_index st3)")
       (simp_all add: end_turn_unfold st3_def)
  define st4 where "st4 = (if check_control CARD_INDEX st3 (active_player_index st3)
                          then add_log (set_pending_control st3 k True)
                                 (ControlThreat (PlayerState.name (players st3 ! k)))
                          else set_pending_control st3 k False)"
  define st5 where "st5 = st4\<lparr>active_player_index :=
                           (active_player_index st4 + 1) mod int (length (players st4))\<rparr>"
  have b: "actions_used st5 = actions_used st3" by (simp add: st5_def st4_def)
  from assms False k have "start_turn CARD_INDEX st5 = Inr st'"
    by (simp add: end_turn_unfold st3_def [symmetric] st4_def [symmetric] st5_def [symmetric]
          Let_def)
  from start_turn_actions [OF this] a b show ?thesis by auto
qed

lemma play_card_actions:
  assumes "play_card CARD_INDEX st cid = Inr (st', ok)"
  shows "if ok then actions_used st < 3 \<and> actions_used st' = actions_used st + 1
         else actions_used st' = actions_used st"
proof -
  have c: "actions_used (fst (can_play_animal CARD_INDEX st c)) = actions_used st" for c
    by (simp add: can_play_animal_def Let_def)
  have "actions_used s = actions_used st" if "can_play_animal CARD_INDEX st c = (s, b)" for c s b
    using c [of c] that by simp
  with assms show ?thesis
    by (auto simp: play_card_def Let_def split: if_splits option.splits prod.splits bool.splits)
qed

lemma start_game_actions:
  assumes "start_game CARD_INDEX deck1 deck2 = Inr st"
  shows "actions_used st = 0"
proof -
  from assms obtain s0 where "start_turn CARD_INDEX s0 = Inr st" "actions_used s0 = 0"
    by (simp add: start_game_def Let_def)
  with start_turn_actions [of CARD_INDEX s0 st] show ?thesis by auto
qed

lemma reachable_actions:
  assumes "reachable CARD_INDEX DECK_P1 DECK_P2 st"
  shows "0 \<le> actions_used st \<and> actions_used st \<le> 3"
  using assms
proof (induction rule: reachable.induct)
  case (started deck1 deck2 st)
  then show ?case by (simp add: start_game_actions)
next
  case (played st cid st' ok)
  from play_card_actions [OF played.hyps(2)] played.IH show ?case
    by (cases ok) auto
next
  case (turn_ended st hunting_choices st')
  from end_turn_actions [OF turn_ended.hyps(2)] turn_ended.IH show ?case by auto
qed

text \<open>
  C8, as the code has it. In every reachable state \<open>actions_used\<close> is between 0 and 3;
  \<open>play_card\<close> adds one to it, only when it succeeds, and then it was below 3. After a
  \<open>start_turn\<close> that does not declare a winner \<open>actions_used\<close> is 0; a \<open>start_turn\<close> that
  declares the winner returns before the reset and leaves \<open>actions_used\<close> as it was.
\<close>

theorem action_budget:
  "(reachable CARD_INDEX DECK_P1 DECK_P2 st \<longrightarrow> 0 \<le> actions_used st \<and> actions_used st \<le> 3)
   \<and> (play_card CARD_INDEX st cid = Inr (st', ok) \<longrightarrow>
        (if ok then actions_used st < 3 \<and> actions_used st' = actions_used st + 1
         else actions_used st' = actions_used st))
   \<and> (py_index (players st) (active_player_index st) = Some k \<longrightarrow>
        (\<exists>st''. start_turn CARD_INDEX st = Inr st''
           \<and> actions_used st'' =
               (if pending_control (players st ! k)
                   \<and> check_control CARD_INDEX st (active_player_index st)
                then actions_used st else 0)))"
proof -
  have 1: "reachable CARD_INDEX DECK_P1 DECK_P2 st \<longrightarrow>
             0 \<le> actions_used st \<and> actions_used st \<le> 3"
    by (simp add: reachable_actions)
  have 2: "play_card CARD_INDEX st cid = Inr (st', ok) \<longrightarrow>
        (if ok then actions_used st < 3 \<and> actions_used st' = actions_used st + 1
         else actions_used st' = actions_used st)"
    using play_card_actions by blast
  have 3: "\<exists>st''. start_turn CARD_INDEX st = Inr st''
           \<and> actions_used st'' =
               (if pending_control (players st ! k)
                   \<and> check_control CARD_INDEX st (active_player_index st)
                then actions_used st else 0)"
    if k: "py_index (players st) (active_player_index st) = Some k"
  proof (cases "pending_control (players st ! k)
                   \<and> check_control CARD_INDEX st (active_player_index st)")
    case True
    with start_turn_wins [OF k] show ?thesis by simp
  next
    case False
    from start_turn_goes_on [OF k False] False show ?thesis by auto
  qed
  from 1 2 3 show ?thesis by blast
qed

lemma opening_state_started:
  "start_game demo_catalog [''hare'', ''fern''] [''wolf''] = Inr opening_state"
  by (simp add: start_game_def start_turn_def py_index_def check_control_def draw_to_hand_def
        add_log_def opening_state_def Let_def)

lemma opening_state_reachable:
  "reachable demo_catalog [''fern'', ''hare''] [''wolf''] opening_state"
  by (rule reachable.started [OF _ _ opening_state_started]) simp_all

text \<open>
  In the opening state of a game the budget is untouched, playing the hare uses one action,
  and a turn that starts there starts with no action used.
\<close>

theorem action_budget_witness:
  "reachable demo_catalog [''fern'', ''hare''] [''wolf''] opening_state
   \<and> 0 \<le> actions_used opening_state \<and> actions_used opening_state \<le> 3
   \<and> (\<exists>st'. play_card demo_catalog opening_state ''hare'' = Inr (st', True)
          \<and> actions_used st' = 1)
   \<and> py_index (players opening_state) (active_player_index opening_state) = Some 0
   \<and> \<not> pending_control (players opening_state ! 0)
   \<and> (\<exists>st''. start_turn demo_catalog opening_state = Inr st'' \<and> actions_used st'' = 0)"
proof -
  obtain st' where p: "play_card demo_catalog opening_state ''hare'' = Inr (st', True)"
    by (simp add: play_card_def opening_state_def truthy_def py_index_def demo_catalog_def
          animal_card_def can_play_animal_def find_viable_prey_def Let_def)
  have k: "py_index (players opening_state) (active_player_index opening_state) = Some 0"
    and np: "\<not> pending_control (players opening_state ! 0)"
    and a: "actions_used opening_state = 0"
    by (simp_all add: py_index_def opening_state_def)
  from action_budget [of demo_catalog "[''fern'', ''hare'']" "[''wolf'']" opening_state
         "''hare''" st' True 0]
    opening_state_reachable p k np a
  show ?thesis by simp
qed

text \<open>
  C8 as stated fails where \<open>start_turn\<close> declares the winner. Player 1 ends a turn with
  two actions used while player 0 holds the pending flag and an animal of every level:
  \<open>end_turn\<close> runs \<open>start_turn\<close> for player 0, who wins, and \<open>actions_used\<close> is still 2.
  The same is seen on \<open>start_turn\<close> alone.
\<close>

theorem actions_not_reset_on_win:
  "actions_used before_win_table = 2
   \<and> \<not> isl (end_turn demo_catalog before_win_table None)
   \<and> winner (projr (end_turn demo_catalog before_win_table None)) = Some ''Jugador 1''
   \<and> actions_used (projr (end_turn demo_catalog before_win_table None)) = 2
   \<and> \<not> isl (start_turn demo_catalog (control_table\<lparr>actions_used := 2\<rparr>))
   \<and> winner (projr (start_turn demo_catalog (control_table\<lparr>actions_used := 2\<rparr>)))
       = Some ''Jugador 1''
   \<and> actions_used (projr (start_turn demo_catalog (control_table\<lparr>actions_used := 2\<rparr>))) = 2"
  by code_simp

lemma starvation_loop:
  fixes CARD_INDEX :: catalog
  defines "die \<equiv> (\<lambda>s animal. let c = CARD_INDEX (card_id (heap s animal))
                       in add_log (s\<lparr>biome := (biome s)\<lparr>cc := cc (biome s) + level c\<rparr>\<rparr>)
                            (DiesOfHunger (card.name c)))"
  assumes "\<forall>a \<in> set dead. 0 \<le> level (CARD_INDEX (card_id (heap st a)))"
  shows "heap (foldl die st dead) = heap st
       \<and> (\<exists>d. 0 \<le> d \<and> biome (foldl die st dead) = (biome st)\<lparr>cc := cc (biome st) + d\<rparr>)"
  using assms(2)
proof (induction dead arbitrary: st)
  case Nil
  show ?case by (simp, intro exI [of _ 0]) simp
next
  case (Cons a dead)
  have h: "heap (die st a) = heap st" by (simp add: die_def Let_def)
  have b: "biome (die st a)
             = (biome st)\<lparr>cc := cc (biome st) + level (CARD_INDEX (card_id (heap st a)))\<rparr>"
    by (simp add: die_def Let_def)
  from Cons.prems h have "\<forall>x \<in> set dead. 0 \<le> level (CARD_INDEX (card_id (heap (die st a) x)))"
    by simp
  from Cons.IH [OF this] obtain d where d: "0 \<le> d"
    "heap (foldl die (die st a) dead) = heap (die st a)"
    "biome (foldl die (die st a) dead) = (biome (die st a))\<lparr>cc := cc (biome (die st a)) + d\<rparr>"
    by blast
  from Cons.prems have l: "0 \<le> level (CARD_INDEX (card_id (heap st a)))" by simp
  from d h b have "heap (foldl die st (a # dead)) = heap st"
    "biome (foldl die st (a # dead))
       = (biome st)\<lparr>cc := cc (biome st) + (level (CARD_INDEX (card_id (heap st a))) + d)\<rparr>"
    by (simp_all add: add.assoc)
  moreover from l d(1) have "0 \<le> level (CARD_INDEX (card_id (heap st a))) + d" by simp
  ultimately show ?case by blast
qed

lemma sound_starvation:
  assumes "catalog_ok CARD_INDEX" and "sound CARD_INDEX st"
  shows "sound CARD_INDEX (resolve_starvation CARD_INDEX st)"
proof -
  define dead where "dead = filter (\<lambda>animal. 2 \<le> hunger (heap st animal)) (animals st)"
  have "\<forall>a \<in> set dead. 0 \<le> level (CARD_INDEX (card_id (heap st a)))"
    using assms by (simp add: dead_def sound_level)
  from starvation_loop [OF this] obtain d where d: "0 \<le> d"
    and b: "biome (foldl (\<lambda>s animal. let c = CARD_INDEX (card_id (heap s animal))
                       in add_log (s\<lparr>biome := (biome s)\<lparr>cc := cc (biome s) + level c\<rparr>\<rparr>)
                            (DiesOfHunger (card.name c))) st dead)
              = (biome st)\<lparr>cc := cc (biome st) + d\<rparr>"
    by blast
  have "biome (resolve_starvation CARD_INDEX st) = biome st
        \<or> biome (resolve_starvation CARD_INDEX st) = (biome st)\<lparr>cc := cc (biome st) + d\<rparr>"
    using b by (simp add: resolve_starvation_def Let_def dead_def [symmetric])
  with assms(2) d have "0 \<le> cn (biome (resolve_starvation CARD_INDEX st))"
    "0 \<le> cc (biome (resolve_starvation CARD_INDEX st))"
    "0 \<le> cn_temp (biome (resolve_starvation CARD_INDEX st))"
    by (auto simp: sound_def)
  with assms(2) same_game_starvation show ?thesis by (rule sound_same_game)
qed

lemma sound_conversion:
  assumes "sound CARD_INDEX st"
  shows "sound CARD_INDEX (resolve_conversion st)"
proof -
  from assms have "0 \<le> cc (biome st)" by (simp add: sound_def)
  then have "0 \<le> (2 * cc (biome st)) div 5" by simp
  with assms have "0 \<le> cn (biome (resolve_conversion st))"
    "0 \<le> cc (biome (resolve_conversion st))"
    "0 \<le> cn_temp (biome (resolve_conversion st))"
    by (simp_all add: resolve_conversion_def Let_def sound_def)
  with assms same_game_conversion show ?thesis by (rule sound_same_game)
qed

lemma sound_resolution:
  assumes "catalog_ok CARD_INDEX" and "sound CARD_INDEX st"
  shows "sound CARD_INDEX (end_turn_resolution CARD_INDEX st hunting_choices)"
  unfolding end_turn_resolution_def Let_def
  by (intro sound_conversion sound_starvation sound_feeding sound_hunting assms)

lemma sound_frame:
  assumes "biome st' = biome st" and "heap st' = heap st" and "animals st' = animals st"
    and "plants st' = plants st"
  shows "sound CARD_INDEX st' = sound CARD_INDEX st"
  using assms by (simp add: sound_def)

lemma sound_start_turn:
  assumes "catalog_ok CARD_INDEX" and "sound CARD_INDEX st"
    and "start_turn CARD_INDEX st = Inr st'"
  shows "sound CARD_INDEX st'"
proof -
  from assms(3) obtain k where k: "py_index (players st) (active_player_index st) = Some k"
    by (cases "py_index (players st) (active_player_index st)") (simp_all add: start_turn_def)
  show ?thesis
  proof (cases "pending_control (players st ! k)
                  \<and> check_control CARD_INDEX st (active_player_index st)")
    case True
    with start_turn_wins [OF k] assms(3)
    have "st' = st\<lparr>winner := Some (PlayerState.name (players st ! k)),
                    log := log st @ [KeepsControlAndWins (PlayerState.name (players st ! k))]\<rparr>"
      by simp
    with assms(2) show ?thesis by (simp add: sound_def)
  next
    case False
    define food where "food = sum_list (map (\<lambda>p. cnPerTurn (CARD_INDEX (PlantInstance.card_id p)))
                                          (plants st))"
    from assms(1,2) have "\<forall>p \<in> set (plants st). 0 \<le> cnPerTurn (CARD_INDEX (PlantInstance.card_id p))"
      by (simp add: catalog_ok_def sound_def)
    then have "0 \<le> food" unfolding food_def by (intro sum_list_nonneg) auto
    moreover from False k assms(3)
    have "biome st' = (biome st)\<lparr>cn := cn_base (biome st) + cn_temp (biome st) + food,
                                   cn_temp := 0\<rparr>"
      "heap st' = heap st" "animals st' = animals st" "plants st' = plants st"
      by (auto simp: start_turn_def Let_def food_def)
    ultimately show ?thesis using assms(2) by (simp add: sound_def)
  qed
qed

lemma sound_end_turn:
  assumes "catalog_ok CARD_INDEX" and "sound CARD_INDEX st"
    and "end_turn CARD_INDEX st hunting_choices = Inr st'"
  shows "sound CARD_INDEX st'"
proof (cases "truthy (winner st)")
  case True
  with assms(2,3) show ?thesis by (simp add: end_turn_unfold)
next
  case False
  define st3 where "st3 = end_turn_resolution CARD_INDEX st hunting_choices"
  have s3: "sound CARD_INDEX st3" unfolding st3_def using assms(1,2) by (rule sound_resolution)
  from assms(3) False obtain k where k: "py_index (players st3) (active_player_index st3) = Some k"
    by (cases "py_index (players st3) (active_player_index st3)")
       (simp_all add: end_turn_unfold st3_def)
  define st4 where "st4 = (if check_control CARD_INDEX st3 (active_player_index st3)
                          then add_log (set_pending_control st3 k True)
                                 (ControlThreat (PlayerState.name (players st3 ! k)))
                          else set_pending_control st3 k False)"
  define st5 where "st5 = st4\<lparr>active_player_index :=
                           (active_player_index st4 + 1) mod int (length (players st4))\<rparr>"
  have "sound CARD_INDEX st5 = sound CARD_INDEX st3"
    by (rule sound_frame) (simp_all add: st5_def st4_def)
  with s3 have s5: "sound CARD_INDEX st5" by simp
  from assms(3) False k have "start_turn CARD_INDEX st5 = Inr st'"
    by (simp add: end_turn_unfold st3_def [symmetric] st4_def [symmetric] st5_def [symmetric]
          Let_def)
  with assms(1) s5 show ?thesis by (rule sound_start_turn)
qed

lemma new_ref_fresh: "new_ref st \<notin> set (animals st)"
proof -
  have "\<forall>r \<in> set xs. r < foldr (\<lambda>r m. max (Suc r) m) xs 0" for xs :: "nat list"
    by (induction xs) (auto simp: less_max_iff_disj)
  then show ?thesis unfolding new_ref_def by blast
qed

lemma can_play_animal_state:
  "fst (can_play_animal CARD_INDEX st c) = st
   \<or> (\<exists>m. fst (can_play_animal CARD_INDEX st c) = add_log st m)"
  by (auto simp: can_play_animal_def Let_def)

text \<open>The branches of \<open>play_card\<close> that put a card on the table.\<close>

lemma play_card_plant:
  assumes "\<not> truthy (winner st)"
    and "py_index (players st) (active_player_index st) = Some k"
    and "cid \<in> set (hand (players st ! k))" and "\<not> 3 \<le> actions_used st"
    and "kind (CARD_INDEX cid) = ''plant''"
    and "play_card CARD_INDEX st cid = Inr (st', ok)"
  shows "biome st' = biome st" and "heap st' = heap st" and "animals st' = animals st"
    and "plants st' = plants st @ [\<lparr>PlantInstance.instance_id = next_instance_id st,
                                    PlantInstance.card_id = cid,
                                    PlantInstance.owner = active_player_index st\<rparr>]"
proof -
  from assms have "st' = add_log
      (st\<lparr>next_instance_id := next_instance_id st + 1,
          plants := plants st @ [\<lparr>PlantInstance.instance_id = next_instance_id st,
                                  PlantInstance.card_id = cid,
                                  PlantInstance.owner = active_player_index st\<rparr>],
          players := (players st)[k := (players st ! k)\<lparr>hand := remove1 cid (hand (players st ! k))\<rparr>],
          actions_used := actions_used st + 1\<rparr>)
      (PlaysPlant (PlayerState.name (players st ! k)) (card.name (CARD_INDEX cid)))"
    by (simp add: play_card_def Let_def)
  then show "biome st' = biome st" and "heap st' = heap st" and "animals st' = animals st"
    and "plants st' = plants st @ [\<lparr>PlantInstance.instance_id = next_instance_id st,
                                    PlantInstance.card_id = cid,
                                    PlantInstance.owner = active_player_index st\<rparr>]"
    by simp_all
qed

lemma play_card_animal:
  assumes "\<not> truthy (winner st)"
    and "py_index (players st) (active_player_index st) = Some k"
    and "cid \<in> set (hand (players st ! k))" and "\<not> 3 \<le> actions_used st"
    and "kind (CARD_INDEX cid) \<noteq> ''plant''" and "kind (CARD_INDEX cid) = ''animal''"
    and "can_play_animal CARD_INDEX st (CARD_INDEX cid) = (st0, True)"
    and "play_card CARD_INDEX st cid = Inr (st', ok)"
  shows "biome st' = biome st0" and "plants st' = plants st0"
    and "animals st' = animals st0 @ [new_ref st0]"
    and "heap st' = (heap st0)(new_ref st0 := \<lparr>instance_id = next_instance_id st0, card_id = cid,
                                 owner = active_player_index st0, hunger = 0\<rparr>)"
proof -
  from assms have "st' = add_log
      (st0\<lparr>heap := (heap st0)(new_ref st0 := \<lparr>instance_id = next_instance_id st0, card_id = cid,
                                 owner = active_player_index st0, hunger = 0\<rparr>),
           next_instance_id := next_instance_id st0 + 1,
           animals := animals st0 @ [new_ref st0],
           players := (players st0)[k := (players st ! k)\<lparr>hand := remove1 cid (hand (players st ! k))\<rparr>],
           actions_used := actions_used st0 + 1\<rparr>)
      (PlaysAnimal (PlayerState.name (players st ! k)) (card.name (CARD_INDEX cid))
         (level (CARD_INDEX cid)))"
    by (simp add: play_card_def Let_def)
  then show "biome st' = biome st0" and "plants st' = plants st0"
    and "animals st' = animals st0 @ [new_ref st0]"
    and "heap st' = (heap st0)(new_ref st0 := \<lparr>instance_id = next_instance_id st0, card_id = cid,
                                 owner = active_player_index st0, hunger = 0\<rparr>)"
    by simp_all
qed

text \<open>Every other branch returns the state it was given, with at most one log entry more.\<close>

lemma play_card_refused:
  assumes "play_card CARD_INDEX st cid = Inr (st', ok)"
    and "truthy (winner st)
         \<or> (\<exists>k. py_index (players st) (active_player_index st) = Some k
                \<and> (cid \<notin> set (hand (players st ! k)) \<or> 3 \<le> actions_used st
                    \<or> (kind (CARD_INDEX cid) \<noteq> ''plant'' \<and> kind (CARD_INDEX cid) \<noteq> ''animal'')
                    \<or> (kind (CARD_INDEX cid) \<noteq> ''plant''
                        \<and> \<not> snd (can_play_animal CARD_INDEX st (CARD_INDEX cid)))))"
  shows "st' = st \<or> (\<exists>m. st' = add_log st m)"
proof -
  from assms(2) consider "truthy (winner st)"
    | k where "\<not> truthy (winner st)" "py_index (players st) (active_player_index st) = Some k"
        "cid \<notin> set (hand (players st ! k))"
    | k where "\<not> truthy (winner st)" "py_index (players st) (active_player_index st) = Some k"
        "cid \<in> set (hand (players st ! k))" "3 \<le> actions_used st"
    | k where "\<not> truthy (winner st)" "py_index (players st) (active_player_index st) = Some k"
        "cid \<in> set (hand (players st ! k))" "\<not> 3 \<le> actions_used st"
        "kind (CARD_INDEX cid) \<noteq> ''plant''" "kind (CARD_INDEX cid) \<noteq> ''animal''"
    | k where "\<not> truthy (winner st)" "py_index (players st) (active_player_index st) = Some k"
        "cid \<in> set (hand (players st ! k))" "\<not> 3 \<le> actions_used st"
        "kind (CARD_INDEX cid) \<noteq> ''plant''" "kind (CARD_INDEX cid) = ''animal''"
        "\<not> snd (can_play_animal CARD_INDEX st (CARD_INDEX cid))"
    by blast
  then show ?thesis
  proof cases
    case 1
    with assms(1) have "st' = add_log st GameAlreadyOver" by (simp add: play_card_def)
    then show ?thesis by blast
  next
    case 2
    with assms(1) have "st' = add_log st CardNotInHand" by (simp add: play_card_def Let_def)
    then show ?thesis by blast
  next
    case 3
    with assms(1) have "st' = add_log st ActionsExhausted" by (simp add: play_card_def Let_def)
    then show ?thesis by blast
  next
    case 4
    with assms(1) have "st' = add_log st UnknownCardKind" by (simp add: play_card_def Let_def)
    then show ?thesis by blast
  next
    case 5
    obtain s0 b where c: "can_play_animal CARD_INDEX st (CARD_INDEX cid) = (s0, b)"
      by (cases "can_play_animal CARD_INDEX st (CARD_INDEX cid)")
    with 5(7) have b: "b = False" by simp
    from c b 5 assms(1) have "st' = s0" by (simp add: play_card_def Let_def)
    moreover from can_play_animal_state [of CARD_INDEX st "CARD_INDEX cid"] c
    have "s0 = st \<or> (\<exists>m. s0 = add_log st m)" by simp
    ultimately show ?thesis by simp
  qed
qed

lemma sound_play_card:
  assumes "sound CARD_INDEX st" and "play_card CARD_INDEX st cid = Inr (st', ok)"
  shows "sound CARD_INDEX st'"
proof -
  let ?refused = "truthy (winner st)
         \<or> (\<exists>k. py_index (players st) (active_player_index st) = Some k
                \<and> (cid \<notin> set (hand (players st ! k)) \<or> 3 \<le> actions_used st
                    \<or> (kind (CARD_INDEX cid) \<noteq> ''plant'' \<and> kind (CARD_INDEX cid) \<noteq> ''animal'')
                    \<or> (kind (CARD_INDEX cid) \<noteq> ''plant''
                        \<and> \<not> snd (can_play_animal CARD_INDEX st (CARD_INDEX cid)))))"
  have index: "\<exists>k. py_index (players st) (active_player_index st) = Some k"
    if "\<not> truthy (winner st)"
    using assms(2) that
    by (cases "py_index (players st) (active_player_index st)") (simp_all add: play_card_def)
  then consider (refused) ?refused
    | (plant) k where "\<not> truthy (winner st)"
        "py_index (players st) (active_player_index st) = Some k"
        "cid \<in> set (hand (players st ! k))" "\<not> 3 \<le> actions_used st"
        "kind (CARD_INDEX cid) = ''plant''"
    | (animal) k where "\<not> truthy (winner st)"
        "py_index (players st) (active_player_index st) = Some k"
        "cid \<in> set (hand (players st ! k))" "\<not> 3 \<le> actions_used st"
        "kind (CARD_INDEX cid) \<noteq> ''plant''" "kind (CARD_INDEX cid) = ''animal''"
        "snd (can_play_animal CARD_INDEX st (CARD_INDEX cid))"
    by blast
  then show ?thesis
  proof cases
    case refused
    from play_card_refused [OF assms(2) refused]
    have "sound CARD_INDEX st' = sound CARD_INDEX st"
    proof
      assume "st' = st"
      then show ?thesis by simp
    next
      assume "\<exists>m. st' = add_log st m"
      then obtain m where "st' = add_log st m" by blast
      then show ?thesis by simp
    qed
    with assms(1) show ?thesis by simp
  next
    case plant
    note f = play_card_plant [OF plant assms(2)]
    from assms(1) have n: "0 \<le> cn (biome st)" "0 \<le> cc (biome st)" "0 \<le> cn_temp (biome st)"
      "0 \<le> cn_base (biome st)"
      and a: "\<forall>a \<in> set (animals st). kind (CARD_INDEX (card_id (heap st a))) = ''animal''"
      and p: "\<forall>p \<in> set (plants st). kind (CARD_INDEX (PlantInstance.card_id p)) = ''plant''"
      unfolding sound_def by blast+
    from p plant(5) have p': "\<forall>p \<in> set (plants st'). kind (CARD_INDEX (PlantInstance.card_id p)) = ''plant''"
      unfolding f(4) by simp
    from a have a': "\<forall>a \<in> set (animals st'). kind (CARD_INDEX (card_id (heap st' a))) = ''animal''"
      unfolding f(2,3) .
    from n have n': "0 \<le> cn (biome st')" "0 \<le> cc (biome st')" "0 \<le> cn_temp (biome st')"
      "0 \<le> cn_base (biome st')"
      unfolding f(1) .
    from n' a' p' show ?thesis unfolding sound_def by blast
  next
    case animal
    obtain st0 b where c0: "can_play_animal CARD_INDEX st (CARD_INDEX cid) = (st0, b)"
      by (cases "can_play_animal CARD_INDEX st (CARD_INDEX cid)")
    with animal(7) have c: "can_play_animal CARD_INDEX st (CARD_INDEX cid) = (st0, True)"
      by simp
    from can_play_animal_state [of CARD_INDEX st "CARD_INDEX cid"] c
    have "st0 = st \<or> (\<exists>m. st0 = add_log st m)" by simp
    then have "sound CARD_INDEX st0 = sound CARD_INDEX st"
    proof
      assume "st0 = st"
      then show ?thesis by simp
    next
      assume "\<exists>m. st0 = add_log st m"
      then obtain m where "st0 = add_log st m" by blast
      then show ?thesis by simp
    qed
    with assms(1) have s0: "sound CARD_INDEX st0" by simp
    have fresh: "new_ref st0 \<notin> set (animals st0)" by (rule new_ref_fresh)
    note f = play_card_animal [OF animal(1-6) c assms(2)]
    from s0 have n: "0 \<le> cn (biome st0)" "0 \<le> cc (biome st0)" "0 \<le> cn_temp (biome st0)"
      "0 \<le> cn_base (biome st0)"
      and a: "\<forall>a \<in> set (animals st0). kind (CARD_INDEX (card_id (heap st0 a))) = ''animal''"
      and p: "\<forall>p \<in> set (plants st0). kind (CARD_INDEX (PlantInstance.card_id p)) = ''plant''"
      unfolding sound_def by blast+
    have a': "kind (CARD_INDEX (card_id (heap st' x))) = ''animal''" if "x \<in> set (animals st')" for x
    proof (cases "x = new_ref st0")
      case True
      then have "card_id (heap st' x) = cid" by (simp add: f(4))
      with animal(6) show ?thesis by simp
    next
      case False
      with that have "x \<in> set (animals st0)" by (simp add: f(3))
      moreover from False have "heap st' x = heap st0 x" by (simp add: f(4))
      ultimately show ?thesis using a by simp
    qed
    from p have p': "\<forall>p \<in> set (plants st'). kind (CARD_INDEX (PlantInstance.card_id p)) = ''plant''"
      unfolding f(2) .
    from n have n': "0 \<le> cn (biome st')" "0 \<le> cc (biome st')" "0 \<le> cn_temp (biome st')"
      "0 \<le> cn_base (biome st')"
      unfolding f(1) .
    from n' a' p' show ?thesis unfolding sound_def by blast
  qed
qed

lemma sound_start_game:
  assumes "catalog_ok CARD_INDEX" and "start_game CARD_INDEX deck1 deck2 = Inr st"
  shows "sound CARD_INDEX st"
proof -
  from assms(2) obtain s0 where "start_turn CARD_INDEX s0 = Inr st" "sound CARD_INDEX s0"
    by (simp add: start_game_def Let_def sound_def)
  with assms(1) show ?thesis by (blast intro: sound_start_turn)
qed

lemma reachable_sound:
  assumes "catalog_ok CARD_INDEX" and "reachable CARD_INDEX DECK_P1 DECK_P2 st"
  shows "sound CARD_INDEX st"
  using assms(2)
proof (induction rule: reachable.induct)
  case (started deck1 deck2 st)
  with assms(1) show ?case by (blast intro: sound_start_game)
next
  case (played st cid st' ok)
  then show ?case by (blast intro: sound_play_card)
next
  case (turn_ended st hunting_choices st')
  with assms(1) show ?case by (blast intro: sound_end_turn)
qed

text \<open>
  C7. For a catalogue as the data model describes it (animal cards of non-negative level,
  plants that generate no negative food), \<open>cn\<close> is at least 0 in every reachable state, and
  it is at least 0 right after the Feeding Resolver in the \<open>end_turn\<close> of a reachable state.
  The Feeding Resolver by itself never takes \<open>cn\<close> below 0, whatever the catalogue: each
  level step, and so the whole resolver, leaves a \<open>cn\<close> that was at least 0 at least 0.
\<close>

theorem food_pool_never_negative:
  "(catalog_ok CARD_INDEX \<and> reachable CARD_INDEX DECK_P1 DECK_P2 st \<longrightarrow>
      0 \<le> cn (biome st)
      \<and> 0 \<le> cn (biome (resolve_feeding CARD_INDEX
                          (fst (resolve_hunting CARD_INDEX st hunting_choices))
                          (snd (resolve_hunting CARD_INDEX st hunting_choices)))))
   \<and> (0 \<le> cn (biome st) \<longrightarrow> 0 \<le> cn (biome (feed_level CARD_INDEX st lv)))
   \<and> (0 \<le> cn (biome st) \<longrightarrow>
        0 \<le> cn (biome (resolve_feeding CARD_INDEX st fed_predators)))"
proof -
  have 1: "0 \<le> cn (biome st)
      \<and> 0 \<le> cn (biome (resolve_feeding CARD_INDEX
                          (fst (resolve_hunting CARD_INDEX st hunting_choices))
                          (snd (resolve_hunting CARD_INDEX st hunting_choices))))"
    if "catalog_ok CARD_INDEX \<and> reachable CARD_INDEX DECK_P1 DECK_P2 st"
  proof -
    from that have ok: "catalog_ok CARD_INDEX" and s: "sound CARD_INDEX st"
      by (auto intro: reachable_sound)
    from sound_hunting [OF ok s]
    have "sound CARD_INDEX (fst (resolve_hunting CARD_INDEX st hunting_choices))" .
    then have "sound CARD_INDEX (resolve_feeding CARD_INDEX
                          (fst (resolve_hunting CARD_INDEX st hunting_choices))
                          (snd (resolve_hunting CARD_INDEX st hunting_choices)))"
      by (rule sound_feeding)
    with s show ?thesis by (simp add: sound_def)
  qed
  have 2: "0 \<le> cn (biome (feed_level CARD_INDEX st lv))" if "0 \<le> cn (biome st)"
    using feed_level_biome [of CARD_INDEX st lv] that by auto
  have 3: "0 \<le> cn (biome (resolve_feeding CARD_INDEX st fed_predators))" if "0 \<le> cn (biome st)"
    using feeding_biome [of CARD_INDEX st fed_predators] that by auto
  from 1 2 3 show ?thesis by blast
qed

lemma demo_catalog_ok: "catalog_ok demo_catalog"
  by (simp add: catalog_ok_def demo_catalog_def animal_card_def plant_card_def)

text \<open>
  The opening state of a game with the example catalogue, and the feeding of scenario C,
  where the duel takes \<open>cn\<close> from 3 to 0 and no further.
\<close>

theorem food_pool_never_negative_witness:
  "catalog_ok demo_catalog
   \<and> reachable demo_catalog [''fern'', ''hare''] [''wolf''] opening_state
   \<and> cn (biome opening_state) = 4
   \<and> 0 \<le> cn (biome (resolve_feeding demo_catalog
                        (fst (resolve_hunting demo_catalog opening_state Map.empty))
                        (snd (resolve_hunting demo_catalog opening_state Map.empty))))
   \<and> cn (biome two_grazers_table) = 3
   \<and> cn (biome (feed_level demo_catalog two_grazers_table 3)) = 0
   \<and> 0 \<le> cn (biome (resolve_feeding demo_catalog two_grazers_table {}))"
proof -
  have c: "cn (biome opening_state) = 4" "cn (biome two_grazers_table) = 3"
    by (simp_all add: opening_state_def two_grazers_table_def demo_state_def)
  have f: "cn (biome (feed_level demo_catalog two_grazers_table 3)) = 0"
    by code_simp
  from food_pool_never_negative [of demo_catalog "[''fern'', ''hare'']" "[''wolf'']"
         opening_state Map.empty 3 "{}"]
    demo_catalog_ok opening_state_reachable
  have 1: "0 \<le> cn (biome (resolve_feeding demo_catalog
                        (fst (resolve_hunting demo_catalog opening_state Map.empty))
                        (snd (resolve_hunting demo_catalog opening_state Map.empty))))"
    by simp
  from food_pool_never_negative [of demo_catalog "[''fern'', ''hare'']" "[''wolf'']"
         two_grazers_table Map.empty 3 "{}"] c
  have 2: "0 \<le> cn (biome (resolve_feeding demo_catalog two_grazers_table {}))"
    by simp
  from demo_catalog_ok opening_state_reachable c f 1 2 show ?thesis by simp
qed

subsection \<open>Carnivores feed by hunting only\<close>

lemma hunt_step_fed:
  "snd (hunt_step CARD_INDEX hunting_choices sf predator) = snd sf
   \<or> snd (hunt_step CARD_INDEX hunting_choices sf predator)
       = insert (instance_id (heap (fst sf) predator)) (snd sf)"
proof -
  have "instance_id (heap (fst (resolve_single_hunt CARD_INDEX (fst sf) predator prey)) predator)
          = instance_id (heap (fst sf) predator)" for prey
    using same_game_single_hunt [of "fst sf" CARD_INDEX predator prey]
    by (simp add: same_game_def)
  then show ?thesis
    by (simp add: hunt_step_def Let_def split: option.splits)
qed

lemma hunt_loop_fed:
  assumes "i \<in> snd (foldl (hunt_step CARD_INDEX hunting_choices) sf predators)"
  shows "i \<in> snd sf \<or> (\<exists>p \<in> set predators. instance_id (heap (fst sf) p) = i)"
  using assms
proof (induction predators arbitrary: sf)
  case Nil
  then show ?case by simp
next
  case (Cons q predators)
  let ?sf' = "hunt_step CARD_INDEX hunting_choices sf q"
  from Cons.prems have "i \<in> snd (foldl (hunt_step CARD_INDEX hunting_choices) ?sf' predators)"
    by simp
  from Cons.IH [OF this]
  have "i \<in> snd ?sf' \<or> (\<exists>p \<in> set predators. instance_id (heap (fst ?sf') p) = i)" .
  moreover have "instance_id (heap (fst ?sf') p) = instance_id (heap (fst sf) p)" for p
    using same_game_hunt_step [of sf CARD_INDEX hunting_choices q] by (simp add: same_game_def)
  moreover from hunt_step_fed [of CARD_INDEX hunting_choices sf q]
  have "i \<in> snd ?sf' \<longrightarrow> i \<in> snd sf \<or> instance_id (heap (fst sf) q) = i" by auto
  ultimately show ?case by auto
qed

lemma fed_are_candidates:
  assumes "i \<in> snd (resolve_hunting CARD_INDEX st hunting_choices)"
  shows "\<exists>p \<in> set (hungry_predators CARD_INDEX st). instance_id (heap st p) = i"
proof (cases "hungry_predators CARD_INDEX st = []")
  case True
  with assms show ?thesis by (simp add: resolve_hunting_def)
next
  case False
  with assms have "i \<in> snd (foldl (hunt_step CARD_INDEX hunting_choices)
                               (add_log st HuntingPhaseStarts, {})
                               (hungry_predators CARD_INDEX st))"
    by (simp add: resolve_hunting_def Let_def)
  from hunt_loop_fed [OF this] show ?thesis by simp
qed

lemma hungry_predators_set:
  "set (hungry_predators CARD_INDEX st) =
     {a \<in> set (animals st).
        (type (CARD_INDEX (card_id (heap st a))) = ''Carnivore''
         \<or> type (CARD_INDEX (card_id (heap st a))) = ''Omnivore'')
        \<and> 1 \<le> hunger (heap st a)}"
  by (auto simp: hungry_predators_def)

text \<open>The level loop does not look at the strictly carnivorous animals.\<close>

lemma feed_level_animals [simp]: "animals (feed_level CARD_INDEX st lv) = animals st"
proof -
  define las where "las = level_animals CARD_INDEX st lv"
  consider "las = []" | "las \<noteq> []" "lv * int (length las) \<le> cn (biome st)"
    | "\<not> lv * int (length las) \<le> cn (biome st)" "2 \<le> length las" "lv \<le> cn (biome st)"
    | "las \<noteq> []" "\<not> lv * int (length las) \<le> cn (biome st)"
      "\<not> (2 \<le> length las \<and> lv \<le> cn (biome st))"
    by blast
  then show ?thesis
  proof cases
    case 1
    then show ?thesis by (simp add: feed_level_empty las_def)
  next
    case 2
    from feed_level_all_fed [OF las_def 2] show ?thesis by simp
  next
    case 3
    from feed_level_duel [OF las_def 3 refl refl refl refl] show ?thesis by simp
  next
    case 4
    from feed_level_no_duel [OF las_def 4] show ?thesis by simp
  qed
qed

lemma feed_loop_animals [simp]: "animals (foldl (feed_level CARD_INDEX) st lvs) = animals st"
  by (induction lvs arbitrary: st) simp_all

lemma level_animals_without_carnivores:
  "level_animals CARD_INDEX (without_carnivores CARD_INDEX st) lv = level_animals CARD_INDEX st lv"
proof -
  have "filter (\<lambda>a. (type (CARD_INDEX (card_id (heap st a))) = ''Herbivore''
                       \<or> type (CARD_INDEX (card_id (heap st a))) = ''Omnivore'')
                      \<and> level (CARD_INDEX (card_id (heap st a))) = lv)
          (filter (\<lambda>a. type (CARD_INDEX (card_id (heap st a))) \<noteq> ''Carnivore'') (animals st))
        = filter (\<lambda>a. (type (CARD_INDEX (card_id (heap st a))) = ''Herbivore''
                       \<or> type (CARD_INDEX (card_id (heap st a))) = ''Omnivore'')
                      \<and> level (CARD_INDEX (card_id (heap st a))) = lv) (animals st)"
    by (induction "animals st") (auto intro: filter_cong)
  then show ?thesis by (simp add: level_animals_def without_carnivores_def)
qed

lemma without_carnivores_simps [simp]:
  "biome (without_carnivores CARD_INDEX st) = biome st"
  "heap (without_carnivores CARD_INDEX st) = heap st"
  "log (without_carnivores CARD_INDEX st) = log st"
  by (simp_all add: without_carnivores_def)

lemma without_carnivores_update:
  assumes "\<And>a. card_id (h a) = card_id (heap st a)"
  shows "without_carnivores CARD_INDEX (st\<lparr>biome := b, heap := h, log := l\<rparr>)
         = (without_carnivores CARD_INDEX st)\<lparr>biome := b, heap := h, log := l\<rparr>"
  using assms by (simp add: without_carnivores_def)

lemma feed_level_without_carnivores:
  "feed_level CARD_INDEX (without_carnivores CARD_INDEX st) lv
   = without_carnivores CARD_INDEX (feed_level CARD_INDEX st lv)"
proof -
  let ?w = "without_carnivores CARD_INDEX st"
  define las where "las = level_animals CARD_INDEX st lv"
  have las_w: "las = level_animals CARD_INDEX ?w lv"
    by (simp add: las_def level_animals_without_carnivores)
  consider "las = []" | "las \<noteq> []" "lv * int (length las) \<le> cn (biome st)"
    | "\<not> lv * int (length las) \<le> cn (biome st)" "2 \<le> length las" "lv \<le> cn (biome st)"
    | "las \<noteq> []" "\<not> lv * int (length las) \<le> cn (biome st)"
      "\<not> (2 \<le> length las \<and> lv \<le> cn (biome st))"
    by blast
  then show ?thesis
  proof cases
    case 1
    then show ?thesis
      by (simp add: feed_level_empty las_def level_animals_without_carnivores)
  next
    case 2
    from 2 have w: "las \<noteq> []" "lv * int (length las) \<le> cn (biome ?w)" by simp_all
    show ?thesis
      unfolding feed_level_all_fed [OF las_def 2] feed_level_all_fed [OF las_w w]
      by (simp add: without_carnivores_update cong: if_cong)
  next
    case 3
    from 3 have w: "\<not> lv * int (length las) \<le> cn (biome ?w)" "2 \<le> length las"
      "lv \<le> cn (biome ?w)"
      by simp_all
    show ?thesis
      unfolding feed_level_duel [OF las_def 3 refl refl refl refl]
        feed_level_duel [OF las_w w refl refl refl refl]
      by (simp add: without_carnivores_update cong: if_cong)
  next
    case 4
    from 4 have w: "las \<noteq> []" "\<not> lv * int (length las) \<le> cn (biome ?w)"
      "\<not> (2 \<le> length las \<and> lv \<le> cn (biome ?w))"
      by simp_all
    show ?thesis
      unfolding feed_level_no_duel [OF las_def 4] feed_level_no_duel [OF las_w w]
      by (simp add: without_carnivores_def)
  qed
qed

lemma feed_loop_without_carnivores:
  "foldl (feed_level CARD_INDEX) (without_carnivores CARD_INDEX st) lvs
   = without_carnivores CARD_INDEX (foldl (feed_level CARD_INDEX) st lvs)"
  by (induction lvs arbitrary: st) (simp_all add: feed_level_without_carnivores)

lemma feeding_biome_is_levels:
  "biome (resolve_feeding CARD_INDEX st fed_predators)
   = biome (feed_levels CARD_INDEX (add_log st FeedingPhaseStarts))"
  by (simp add: resolve_feeding_def Let_def foldl_inc_hunger)

lemma feeding_cn_without_carnivores:
  "cn (biome (resolve_feeding CARD_INDEX (without_carnivores CARD_INDEX st) fed_predators))
   = cn (biome (resolve_feeding CARD_INDEX st fed_predators))"
proof -
  have "add_log (without_carnivores CARD_INDEX st) FeedingPhaseStarts
        = without_carnivores CARD_INDEX (add_log st FeedingPhaseStarts)"
    by (simp add: without_carnivores_def add_log_def)
  then have "feed_levels CARD_INDEX (add_log (without_carnivores CARD_INDEX st) FeedingPhaseStarts)
        = without_carnivores CARD_INDEX (feed_levels CARD_INDEX (add_log st FeedingPhaseStarts))"
    by (simp add: feed_levels_def feed_loop_without_carnivores)
  then show ?thesis by (simp add: feeding_biome_is_levels)
qed

text \<open>The level loop does not touch a strictly carnivorous animal.\<close>

lemma feed_level_carnivore:
  assumes "type (CARD_INDEX (card_id (heap st a))) = ''Carnivore''"
  shows "heap (feed_level CARD_INDEX st lv) a = heap st a"
proof -
  from assms have "a \<notin> set (level_animals CARD_INDEX st lv)"
    by (simp add: level_animals_set)
  then show ?thesis by (rule feed_level_frame)
qed

lemma feed_loop_carnivore:
  assumes "type (CARD_INDEX (card_id (heap st a))) = ''Carnivore''"
  shows "heap (foldl (feed_level CARD_INDEX) st lvs) a = heap st a"
  using assms
proof (induction lvs arbitrary: st)
  case Nil
  show ?case by simp
next
  case (Cons lv lvs)
  from Cons.prems have h: "heap (feed_level CARD_INDEX st lv) a = heap st a"
    by (rule feed_level_carnivore)
  with Cons.prems have "type (CARD_INDEX (card_id (heap (feed_level CARD_INDEX st lv) a))) = ''Carnivore''"
    by simp
  from Cons.IH [OF this] h show ?case by simp
qed

lemma feeding_carnivore_hunger:
  assumes d: "distinct (animals st)" and a: "a \<in> set (animals st)"
    and t: "type (CARD_INDEX (card_id (heap st a))) = ''Carnivore''"
  shows "hunger (heap (resolve_feeding CARD_INDEX st fed_predators) a)
         = hunger (heap st a) + (if instance_id (heap st a) \<in> fed_predators then 0 else 1)"
proof -
  define st1 where "st1 = feed_levels CARD_INDEX (add_log st FeedingPhaseStarts)"
  define unfed where "unfed = unfed_carnivores CARD_INDEX st1 fed_predators"
  have an: "animals st1 = animals st" by (simp add: st1_def feed_levels_def)
  have sg: "same_game st st1"
    unfolding st1_def using same_game_add_log same_game_feed_levels by (rule same_game_trans)
  then have ids: "instance_id (heap st1 x) = instance_id (heap st x)"
    and cards: "card_id (heap st1 x) = card_id (heap st x)" for x
    by (simp_all add: same_game_def)
  from t have "type (CARD_INDEX (card_id (heap (add_log st FeedingPhaseStarts) a))) = ''Carnivore''"
    by simp
  with feed_loop_carnivore [of CARD_INDEX "add_log st FeedingPhaseStarts" a
         "[1 .. lmax (biome (add_log st FeedingPhaseStarts))]"]
  have h1: "heap st1 a = heap st a" by (simp add: st1_def feed_levels_def)
  have du: "distinct unfed" using d by (simp add: unfed_def unfed_carnivores_def an)
  have mem: "a \<in> set unfed \<longleftrightarrow> instance_id (heap st a) \<notin> fed_predators"
    using a t by (simp add: unfed_def unfed_carnivores_def an ids cards)
  have cnt: "count_list unfed a = (if instance_id (heap st a) \<in> fed_predators then 0 else 1)"
    using count_list_distinct [OF du, of a] mem by simp
  have "heap (resolve_feeding CARD_INDEX st fed_predators) a
        = (heap st1 a)\<lparr>hunger := hunger (heap st1 a) + int (count_list unfed a)\<rparr>"
    by (simp add: resolve_feeding_def Let_def st1_def [symmetric] unfed_def [symmetric]
          foldl_inc_hunger)
  with h1 cnt show ?thesis by simp
qed

text \<open>
  C6. The hunting candidates are the Carnivore and Omnivore instances on the table that
  have hunger at least 1 when the Hunting phase starts, and only the instance ids of
  candidates are ever recorded as fed by hunting. Strict Carnivores take nothing from the
  shared pool: the \<open>cn\<close> that the Feeding Resolver leaves is the one it would leave on the
  same table without its Carnivores. On a table that holds no animal object twice, the
  Feeding Resolver gives every Carnivore instance on the table one more hunger, except for
  those whose id is recorded as fed by hunting, whose hunger it leaves as it is; it never
  lowers the hunger of a Carnivore.
\<close>

theorem carnivores_feed_by_hunting:
  "set (hungry_predators CARD_INDEX st) =
     {a \<in> set (animals st).
        (type (CARD_INDEX (card_id (heap st a))) = ''Carnivore''
         \<or> type (CARD_INDEX (card_id (heap st a))) = ''Omnivore'')
        \<and> 1 \<le> hunger (heap st a)}
   \<and> (\<forall>i \<in> snd (resolve_hunting CARD_INDEX st hunting_choices).
         \<exists>p \<in> set (hungry_predators CARD_INDEX st). instance_id (heap st p) = i)
   \<and> cn (biome (resolve_feeding CARD_INDEX st fed_predators))
       = cn (biome (resolve_feeding CARD_INDEX (without_carnivores CARD_INDEX st) fed_predators))
   \<and> (distinct (animals st) \<longrightarrow>
        (\<forall>a \<in> set (animals st).
           type (CARD_INDEX (card_id (heap st a))) = ''Carnivore'' \<longrightarrow>
           hunger (heap (resolve_feeding CARD_INDEX st fed_predators) a)
             = hunger (heap st a) + (if instance_id (heap st a) \<in> fed_predators then 0 else 1)))"
proof -
  have 1: "set (hungry_predators CARD_INDEX st) =
     {a \<in> set (animals st).
        (type (CARD_INDEX (card_id (heap st a))) = ''Carnivore''
         \<or> type (CARD_INDEX (card_id (heap st a))) = ''Omnivore'')
        \<and> 1 \<le> hunger (heap st a)}"
    by (rule hungry_predators_set)
  have 2: "\<forall>i \<in> snd (resolve_hunting CARD_INDEX st hunting_choices).
         \<exists>p \<in> set (hungry_predators CARD_INDEX st). instance_id (heap st p) = i"
    using fed_are_candidates by blast
  have 3: "cn (biome (resolve_feeding CARD_INDEX st fed_predators))
       = cn (biome (resolve_feeding CARD_INDEX (without_carnivores CARD_INDEX st) fed_predators))"
    by (simp add: feeding_cn_without_carnivores)
  have 4: "\<forall>a \<in> set (animals st).
           type (CARD_INDEX (card_id (heap st a))) = ''Carnivore'' \<longrightarrow>
           hunger (heap (resolve_feeding CARD_INDEX st fed_predators) a)
             = hunger (heap st a) + (if instance_id (heap st a) \<in> fed_predators then 0 else 1)"
    if "distinct (animals st)"
    using that feeding_carnivore_hunger by blast
  from 1 2 3 4 show ?thesis by blast
qed

text \<open>
  On the table of scenario C the wolf (address 2, hunger 0) has not hunted: feeding leaves
  it with hunger 1, and the pool ends as it would without the wolf. On the table of the
  hunting chain the wolf's id 1 is recorded as fed, and the wolf is a candidate.
\<close>

theorem carnivores_feed_by_hunting_witness:
  "distinct (animals two_grazers_table)
   \<and> 2 \<in> set (animals two_grazers_table)
   \<and> type (demo_catalog (card_id (heap two_grazers_table 2))) = ''Carnivore''
   \<and> hunger (heap two_grazers_table 2) = 0
   \<and> hunger (heap (resolve_feeding demo_catalog two_grazers_table {}) 2) = 1
   \<and> cn (biome (resolve_feeding demo_catalog two_grazers_table {}))
       = cn (biome (resolve_feeding demo_catalog
                      (without_carnivores demo_catalog two_grazers_table) {}))
   \<and> 1 \<in> snd (resolve_hunting demo_catalog hunt_chain_table hunt_chain_choices)
   \<and> (\<exists>p \<in> set (hungry_predators demo_catalog hunt_chain_table).
         instance_id (heap hunt_chain_table p) = 1)"
proof -
  have t: "distinct (animals two_grazers_table)" "2 \<in> set (animals two_grazers_table)"
    "type (demo_catalog (card_id (heap two_grazers_table 2))) = ''Carnivore''"
    "hunger (heap two_grazers_table 2) = 0" "instance_id (heap two_grazers_table 2) = 3"
    by (simp_all add: two_grazers_table_def demo_state_def heap_of_def animal_def
          demo_catalog_def animal_card_def upt_rec [of 0] upt_rec [of 1] upt_rec [of 2]
          upt_rec [of 3])
  have f: "1 \<in> snd (resolve_hunting demo_catalog hunt_chain_table hunt_chain_choices)"
    by (simp add: resolve_hunting_def hunt_chain_table_def hunt_chain_choices_def demo_state_def
        hungry_predators_def heap_of_def animal_def demo_catalog_def animal_card_def hunt_step_def
        add_log_def is_viable_prey_def resolve_single_hunt_def hunt_combat_def attack_score_def
        defense_score_def weight_scaled_def trunc_div_def ceil_half_def set_hunger_def Let_def
        upt_rec [of 0] upt_rec [of 1] upt_rec [of 2] upt_rec [of 3])
  from carnivores_feed_by_hunting [of demo_catalog two_grazers_table Map.empty "{}"] t
  have a: "hunger (heap (resolve_feeding demo_catalog two_grazers_table {}) 2) = 1"
    and b: "cn (biome (resolve_feeding demo_catalog two_grazers_table {}))
       = cn (biome (resolve_feeding demo_catalog
                      (without_carnivores demo_catalog two_grazers_table) {}))"
    by simp_all
  from carnivores_feed_by_hunting [of demo_catalog hunt_chain_table hunt_chain_choices "{}"] f
  have c: "\<exists>p \<in> set (hungry_predators demo_catalog hunt_chain_table).
         instance_id (heap hunt_chain_table p) = 1"
    by blast
  from t(1-4) a b f c show ?thesis by simp
qed

subsection \<open>Where the pending flag is written\<close>

text \<open>
  \<open>end_turn\<close> is the one that writes the pending flag: after an \<open>end_turn\<close> that ran, the
  flag of the player who just acted says whether \<open>check_control\<close> held for that player
  after the four resolvers.
\<close>

lemma end_turn_recomputes_flag:
  assumes "end_turn CARD_INDEX st hunting_choices = Inr st'" and "\<not> truthy (winner st)"
  shows "\<exists>k. py_index (players st) (active_player_index st) = Some k
           \<and> pending_control (players st' ! k)
               = check_control CARD_INDEX (end_turn_resolution CARD_INDEX st hunting_choices)
                   (active_player_index st)"
proof -
  define st3 where "st3 = end_turn_resolution CARD_INDEX st hunting_choices"
  have "same_game st st3" unfolding st3_def by (rule same_game_resolution)
  then have same: "players st3 = players st" "active_player_index st3 = active_player_index st"
    by (simp_all add: same_game_def)
  from assms obtain k where k: "py_index (players st3) (active_player_index st3) = Some k"
    by (cases "py_index (players st3) (active_player_index st3)")
       (simp_all add: end_turn_unfold st3_def)
  then have kl: "k < length (players st3)" by (rule py_index_bound)
  define b where "b = check_control CARD_INDEX st3 (active_player_index st3)"
  define st4 where "st4 = (if check_control CARD_INDEX st3 (active_player_index st3)
                          then add_log (set_pending_control st3 k True)
                                 (ControlThreat (PlayerState.name (players st3 ! k)))
                          else set_pending_control st3 k False)"
  define st5 where "st5 = st4\<lparr>active_player_index :=
                           (active_player_index st4 + 1) mod int (length (players st4))\<rparr>"
  have p5: "players st5 = (players st3)[k := (players st3 ! k)\<lparr>pending_control := b\<rparr>]"
    by (simp add: st5_def st4_def b_def set_pending_control_def)
  from assms k have "start_turn CARD_INDEX st5 = Inr st'"
    by (simp add: end_turn_unfold st3_def [symmetric] st4_def [symmetric] st5_def [symmetric]
          Let_def)
  then have m: "map pending_control (players st') = map pending_control (players st5)"
    by (rule start_turn_keeps_flags)
  then have "length (players st') = length (players st5)" by (metis length_map)
  with kl p5 have kl': "k < length (players st')" "k < length (players st5)" by simp_all
  from m kl' have "pending_control (players st' ! k) = pending_control (players st5 ! k)"
    by (metis nth_map)
  also from kl have "\<dots> = b" by (simp add: p5)
  finally have "pending_control (players st' ! k)
                  = check_control CARD_INDEX st3 (active_player_index st)"
    by (simp add: b_def same)
  with k same show ?thesis by (auto simp: st3_def)
qed

end
